theory Spec2Isabelle
  imports Main
begin

section \<open>Text\<close>

text \<open>
  A Python \<open>str\<close> is a sequence of Unicode code points. A code point is modelled as an
  \<open>int\<close> and a string as a list of them; \<open>U\<close> turns an ASCII literal into such a
  string. The characters the notices are matched against are named below.
\<close>

type_synonym uchar = int
type_synonym ustr = "int list"

definition U :: "string \<Rightarrow> ustr" where
  "U s = map of_char s"

definition is_digit :: "uchar \<Rightarrow> bool" where
  "is_digit c = (48 \<le> c \<and> c \<le> 57)"

definition ch_nian :: uchar where "ch_nian = 24180"   \<comment> \<open>U+5E74, year\<close>
definition ch_yue :: uchar where "ch_yue = 26376"     \<comment> \<open>U+6708, month\<close>
definition ch_ri :: uchar where "ch_ri = 26085"       \<comment> \<open>U+65E5, day\<close>
definition ch_zhi :: uchar where "ch_zhi = 33267"     \<comment> \<open>U+81F3, to\<close>
definition ch_fang :: uchar where "ch_fang = 25918"   \<comment> \<open>U+653E\<close>
definition ch_jia :: uchar where "ch_jia = 20551"     \<comment> \<open>U+5047\<close>
definition ch_shang :: uchar where "ch_shang = 19978" \<comment> \<open>U+4E0A\<close>
definition ch_ban :: uchar where "ch_ban = 29677"     \<comment> \<open>U+73ED\<close>
definition ch_dun :: uchar where "ch_dun = 12289"     \<comment> \<open>U+3001, the enumeration comma\<close>
definition ch_ju :: uchar where "ch_ju = 12290"       \<comment> \<open>U+3002, the full stop\<close>
definition ch_lparen :: uchar where "ch_lparen = 65288" \<comment> \<open>U+FF08\<close>
definition ch_rparen :: uchar where "ch_rparen = 65289" \<comment> \<open>U+FF09\<close>

text \<open>The title prefix of a notice, U+56FD U+52A1 U+9662 U+529E U+516C U+5385 U+5173 U+4E8E.\<close>

definition title_prefix :: ustr where
  "title_prefix = [22269, 21153, 38498, 21150, 20844, 21381, 20851, 20110]"

section \<open>Errors\<close>

text \<open>
  Every exception the program can raise is a value. \<open>CanNotParse\<close> and
  \<open>WrongMessage\<close> are the two \<open>raise Exception(...)\<close> of the source;
  \<open>FetchError\<close> and \<open>SearchError\<close> stand for whatever the HTTP requests and the
  HTML lookup raise.
\<close>

datatype error =
    ValueError
  | TypeError
  | AssertionError
  | UnboundLocalError
  | OverflowError
  | UnicodeEncodeError
  | JSONDecodeError
  | FileNotFoundError
  | FetchError
  | SearchError
  | WrongMessage ustr
  | CanNotParse "ustr option"

fun collect :: "('a \<Rightarrow> error + 'b) \<Rightarrow> 'a list \<Rightarrow> error + 'b list" where
  "collect f [] = Inr []"
| "collect f (x # xs) =
     (case f x of
        Inl e \<Rightarrow> Inl e
      | Inr y \<Rightarrow> (case collect f xs of Inl e \<Rightarrow> Inl e | Inr ys \<Rightarrow> Inr (y # ys)))"

section \<open>Regular expressions\<close>

text \<open>
  The patterns of the source are values of \<open>re\<close>. \<open>mt r st\<close> lists the states the
  backtracking matcher of Python's \<open>re\<close> module can reach from \<open>st\<close>, in the order it
  tries them (a greedy operator tries the longer match first), so the match Python
  reports is the head of the list. A state holds the character before the position (for
  the look-behind), the text still to read and the groups captured so far, the latest
  first. \<open>Digit\<close> is \<open>\d\<close> restricted to the ASCII digits. A repetition goes on only
  after a round that read something; every round of the patterns below does.
\<close>

datatype re =
    Lit uchar
  | Digit
  | Range uchar uchar
  | AnyChar
  | OneOf "uchar list"
  | NoneOf "uchar list"
  | Behind uchar
  | Seq re re
  | Alt re re
  | Opt re
  | Plus re
  | Grp nat re

type_synonym mstate = "uchar option \<times> ustr \<times> (nat \<times> ustr) list"

definition step :: "(uchar \<Rightarrow> bool) \<Rightarrow> mstate \<Rightarrow> mstate list" where
  "step P st = (case st of (p, s, g) \<Rightarrow>
     (case s of [] \<Rightarrow> [] | x # xs \<Rightarrow> if P x then [(Some x, xs, g)] else []))"

function mt :: "re \<Rightarrow> mstate \<Rightarrow> mstate list" where
  "mt (Lit c) st = step (\<lambda>x. x = c) st"
| "mt Digit st = step (\<lambda>x. 48 \<le> x \<and> x \<le> 57) st"
| "mt (Range lo hi) st = step (\<lambda>x. lo \<le> x \<and> x \<le> hi) st"
| "mt AnyChar st = step (\<lambda>x. x \<noteq> 10) st"
| "mt (OneOf cs) st = step (\<lambda>x. x \<in> set cs) st"
| "mt (NoneOf cs) st = step (\<lambda>x. x \<notin> set cs) st"
| "mt (Behind c) st = (if fst st = Some c then [st] else [])"
| "mt (Seq a b) st = concat (map (mt b) (mt a st))"
| "mt (Alt a b) st = mt a st @ mt b st"
| "mt (Opt a) st = mt a st @ [st]"
| "mt (Plus a) st =
     concat (map (\<lambda>st'. mt (Plus a) st' @ [st'])
       (filter (\<lambda>st'. length (fst (snd st')) < length (fst (snd st))) (mt a st)))"
| "mt (Grp n a) st =
     map (\<lambda>st'. (fst st', fst (snd st'),
            (n, take (length (fst (snd st)) - length (fst (snd st'))) (fst (snd st))) # snd (snd st')))
       (mt a st)"
  by pat_completeness auto
termination
  by (relation "inv_image (less_than <*lex*> less_than)
        (\<lambda>(r, st). (size r, length (fst (snd st))))") auto

fun ngroups :: "re \<Rightarrow> nat" where
  "ngroups (Seq a b) = ngroups a + ngroups b"
| "ngroups (Alt a b) = ngroups a + ngroups b"
| "ngroups (Opt a) = ngroups a"
| "ngroups (Plus a) = ngroups a"
| "ngroups (Grp n a) = Suc (ngroups a)"
| "ngroups _ = 0"

text \<open>
  \<open>groups\<close> is \<open>Match.groups()\<close>: one entry for each group of the pattern, \<open>None\<close>
  for a group that took no part in the match.
\<close>

definition groups :: "re \<Rightarrow> (nat \<times> ustr) list \<Rightarrow> ustr option list" where
  "groups r g = map (map_of g) [1 ..< Suc (ngroups r)]"

text \<open>
  \<open>finditer\<close> yields the matched text and the captures of each non-overlapping match,
  left to right; \<open>sub_empty\<close> is \<open>pattern.sub("", s)\<close>. No pattern of the program
  matches the empty string; an empty match is stepped over by one character.
\<close>

function finditer :: "re \<Rightarrow> uchar option \<Rightarrow> ustr \<Rightarrow> (ustr \<times> (nat \<times> ustr) list) list" where
  "finditer r p s =
     (case mt r (p, s, []) of
        [] \<Rightarrow> (case s of [] \<Rightarrow> [] | x # xs \<Rightarrow> finditer r (Some x) xs)
      | st # _ \<Rightarrow>
          (if length (fst (snd st)) < length s
           then (take (length s - length (fst (snd st))) s, snd (snd st))
                  # finditer r (fst st) (fst (snd st))
           else (case s of [] \<Rightarrow> [([], snd (snd st))]
                 | x # xs \<Rightarrow> ([], snd (snd st)) # finditer r (Some x) xs)))"
  by pat_completeness auto
termination
  by (relation "measure (\<lambda>(r, p, s). length s)") auto

function sub_empty :: "re \<Rightarrow> uchar option \<Rightarrow> ustr \<Rightarrow> ustr" where
  "sub_empty r p s =
     (case mt r (p, s, []) of
        [] \<Rightarrow> (case s of [] \<Rightarrow> [] | x # xs \<Rightarrow> x # sub_empty r (Some x) xs)
      | st # _ \<Rightarrow>
          (if length (fst (snd st)) < length s
           then sub_empty r (fst st) (fst (snd st))
           else (case s of [] \<Rightarrow> [] | x # xs \<Rightarrow> x # sub_empty r (Some x) xs)))"
  by pat_completeness auto
termination
  by (relation "measure (\<lambda>(r, p, s). length s)") auto

definition findall :: "re \<Rightarrow> ustr \<Rightarrow> ustr list" where
  "findall r s = map fst (finditer r None s)"

subsection \<open>The patterns of the source\<close>

definition d4 :: re where
  "d4 = Seq Digit (Seq Digit (Seq Digit Digit))"

definition d12 :: re where
  "d12 = Seq Digit (Opt Digit)"

definition lits :: "ustr \<Rightarrow> re \<Rightarrow> re" where
  "lits cs r = foldr (\<lambda>c. Seq (Lit c)) cs r"

text \<open>\<open>P_LINE_FIX\<close>: an opening parenthesis, one or more characters that close none, one character.\<close>

definition P_LINE_FIX :: re where
  "P_LINE_FIX = Seq (OneOf [40, ch_lparen]) (Seq (Plus (NoneOf [41, ch_rparen])) AnyChar)"

text \<open>
  \<open>reg_holiday_occur\<close>: group 1 is the first day (optional year, month, day), group 2
  the optional last day after U+81F3, then the two characters of the word for a holiday.
\<close>

definition reg_holiday_occur :: re where
  "reg_holiday_occur =
     Seq (Grp 1 (Seq (Opt (Seq d4 (Lit ch_nian)))
                 (Seq d12 (Seq (Lit ch_yue) (Seq d12 (Lit ch_ri))))))
      (Seq (Opt (Seq (Lit ch_zhi)
                  (Grp 2 (Seq (Opt (Seq d4 (Lit ch_nian)))
                          (Seq (Opt (Seq d12 (Lit ch_yue)))
                           (Seq d12 (Lit ch_ri)))))))
       (Seq (Lit ch_fang) (Lit ch_jia)))"

text \<open>The run of work days: group 1 is one or more day mentions, then the word for work and a full stop.\<close>

definition reg_workday_occur :: re where
  "reg_workday_occur =
     Seq (Grp 1 (Plus
            (Seq (Opt (Seq (Opt (Seq d4 (Lit ch_nian))) (Seq d12 (Lit ch_yue))))
             (Seq d12 (Seq (Lit ch_ri) (Opt (Lit ch_dun)))))))
      (Seq (Lit ch_shang) (Seq (Lit ch_ban) (Lit ch_ju)))"

text \<open>A day of the run: it states its month, or it follows the enumeration comma.\<close>

definition reg_workday :: re where
  "reg_workday =
     Seq (Alt (Seq (Opt (Seq d4 (Lit ch_nian))) (Seq d12 (Lit ch_yue))) (Behind ch_dun))
      (Seq d12 (Lit ch_ri))"

definition reg_title :: re where
  "reg_title = lits title_prefix (Seq (Grp 1 d4) (Lit ch_nian))"

definition fix_line :: "ustr \<Rightarrow> ustr" where
  "fix_line line = sub_empty P_LINE_FIX None line"

section \<open>Dates\<close>

text \<open>
  A naive \<open>datetime\<close>: the calendar date and the time of day in microseconds. The
  calendar is the proleptic Gregorian one of Python's \<open>datetime\<close> module, years 1 to
  9999.
\<close>

record datetime =
  dt_year :: int
  dt_month :: int
  dt_day :: int
  dt_time :: int

definition is_leap :: "int \<Rightarrow> bool" where
  "is_leap y = (y mod 4 = 0 \<and> (y mod 100 \<noteq> 0 \<or> y mod 400 = 0))"

definition days_in_month :: "int \<Rightarrow> int \<Rightarrow> int" where
  "days_in_month y m =
     (if m = 2 then (if is_leap y then 29 else 28)
      else if m = 4 \<or> m = 6 \<or> m = 9 \<or> m = 11 then 30 else 31)"

definition days_before_year :: "int \<Rightarrow> int" where
  "days_before_year y = (y - 1) * 365 + (y - 1) div 4 - (y - 1) div 100 + (y - 1) div 400"

definition days_before_month :: "int \<Rightarrow> int \<Rightarrow> int" where
  "days_before_month y m = sum_list (map (\<lambda>k. days_in_month y (int k)) [1 ..< nat m])"

definition toordinal :: "datetime \<Rightarrow> int" where
  "toordinal d = days_before_year (dt_year d) + days_before_month (dt_year d) (dt_month d) + dt_day d"

text \<open>\<open>weekday()\<close>: Monday is 0, Sunday is 6.\<close>

definition weekday :: "datetime \<Rightarrow> int" where
  "weekday d = (toordinal d + 6) mod 7"

definition valid_date :: "int \<Rightarrow> int \<Rightarrow> int \<Rightarrow> bool" where
  "valid_date y m d = (1 \<le> y \<and> y \<le> 9999 \<and> 1 \<le> m \<and> m \<le> 12 \<and> 1 \<le> d \<and> d \<le> days_in_month y m)"

text \<open>The date of an ordinal, as \<open>date.fromordinal\<close> computes it.\<close>

definition fromordinal :: "int \<Rightarrow> int \<times> int \<times> int" where
  "fromordinal n0 =
     (let n = n0 - 1;
          n400 = n div 146097; n = n mod 146097;
          n100 = n div 36524; n = n mod 36524;
          n4 = n div 1461; n = n mod 1461;
          n1 = n div 365; n = n mod 365;
          year = n400 * 400 + 1 + n100 * 100 + n4 * 4 + n1
      in if n1 = 4 \<or> n100 = 4 then (year - 1, 12, 31)
         else
           (let leapyear = (n1 = 3 \<and> (n4 \<noteq> 24 \<or> n100 = 3));
                y = (if leapyear then 4 else 1);
                month = (n + 50) div 32;
                preceding = days_before_month y month;
                month' = (if preceding > n then month - 1 else month);
                preceding' = (if preceding > n then preceding - days_in_month y month' else preceding)
            in (year, month', n - preceding' + 1)))"

text \<open>\<open>d + timedelta(days=k)\<close>; the time of day is kept.\<close>

definition add_days :: "datetime \<Rightarrow> int \<Rightarrow> error + datetime" where
  "add_days d k =
     (let n = toordinal d + k
      in if 1 \<le> n \<and> n \<le> 3652059
         then (case fromordinal n of (y, m, dd) \<Rightarrow>
                 Inr (d\<lparr>dt_year := y, dt_month := m, dt_day := dd\<rparr>))
         else Inl OverflowError)"

text \<open>Comparison of two naive datetimes: by date, then by time of day.\<close>

definition dt_le :: "datetime \<Rightarrow> datetime \<Rightarrow> bool" where
  "dt_le a b =
     (dt_year a < dt_year b \<or> (dt_year a = dt_year b \<and>
       (dt_month a < dt_month b \<or> (dt_month a = dt_month b \<and>
         (dt_day a < dt_day b \<or> (dt_day a = dt_day b \<and> dt_time a \<le> dt_time b))))))"

subsection \<open>Parsing and printing\<close>

text \<open>
  \<open>strptime\<close> matches the text against the pattern the format stands for, from its
  first character to its last, and builds the date; anything else is a \<open>ValueError\<close>.
  The year is four digits; the month and the day take one or two, as the patterns of
  \<open>%m\<close> and \<open>%d\<close> have it. \<open>re_format_cn\<close> is the format of the notices, with
  U+5E74, U+6708 and U+65E5 after the numbers; \<open>re_format_iso\<close> is the format of the
  cache, with two hyphens.
\<close>

definition re_month :: re where
  "re_month = Alt (Seq (Lit 49) (Range 48 50)) (Alt (Seq (Lit 48) (Range 49 57)) (Range 49 57))"

definition re_day :: re where
  "re_day = Alt (Seq (Lit 51) (OneOf [48, 49]))
            (Alt (Seq (OneOf [49, 50]) Digit)
            (Alt (Seq (Lit 48) (Range 49 57))
            (Alt (Range 49 57) (Seq (Lit 32) (Range 49 57)))))"

definition re_format_cn :: re where
  "re_format_cn =
     Seq (Grp 1 d4) (Seq (Lit ch_nian) (Seq (Grp 2 re_month) (Seq (Lit ch_yue)
       (Seq (Grp 3 re_day) (Lit ch_ri)))))"

definition re_format_iso :: re where
  "re_format_iso =
     Seq (Grp 1 d4) (Seq (Lit 45) (Seq (Grp 2 re_month) (Seq (Lit 45) (Grp 3 re_day))))"

text \<open>The number a run of digits writes; a leading space of the day is skipped.\<close>

definition int_of_digits :: "ustr \<Rightarrow> int" where
  "int_of_digits s = foldl (\<lambda>n c. if c = 32 then n else 10 * n + (c - 48)) 0 s"

definition strptime :: "re \<Rightarrow> ustr \<Rightarrow> error + datetime" where
  "strptime fmt txt =
     (case mt fmt (None, txt, []) of
        [] \<Rightarrow> Inl ValueError
      | st # _ \<Rightarrow>
         (if fst (snd st) \<noteq> [] then Inl ValueError
          else
           (case (map_of (snd (snd st)) 1, map_of (snd (snd st)) 2, map_of (snd (snd st)) 3) of
              (Some y, Some m, Some d) \<Rightarrow>
                (if valid_date (int_of_digits y) (int_of_digits m) (int_of_digits d)
                 then Inr \<lparr>dt_year = int_of_digits y, dt_month = int_of_digits m,
                           dt_day = int_of_digits d, dt_time = 0\<rparr>
                 else Inl ValueError)
            | _ \<Rightarrow> Inl ValueError)))"

text \<open>
  \<open>strftime("%Y-%m-%d")\<close> and \<open>strftime("%Y")\<close>: the year on four digits, month and
  day on two. (For a year below 1000 the C library decides whether the year is padded; the
  model pads.)
\<close>

fun dec :: "nat \<Rightarrow> int \<Rightarrow> ustr" where
  "dec 0 n = []"
| "dec (Suc k) n = dec k (n div 10) @ [48 + n mod 10]"

definition strftime_Y :: "datetime \<Rightarrow> ustr" where
  "strftime_Y d = dec 4 (dt_year d)"

definition strftime_iso :: "datetime \<Rightarrow> ustr" where
  "strftime_iso d = dec 4 (dt_year d) @ [45] @ dec 2 (dt_month d) @ [45] @ dec 2 (dt_day d)"

section \<open>Values\<close>

text \<open>
  The values the program handles and JSON can hold. The parser builds tuples;
  \<open>json.dump\<close> writes a tuple as an array and \<open>json.load\<close> reads an array as a list. A
  \<open>dict\<close> keeps its keys in insertion order. A float is kept as the text that wrote
  it.
\<close>

datatype pyval =
    PNone
  | PBool bool
  | PInt int
  | PFloat ustr
  | PStr ustr
  | PList "pyval list"
  | PDict "(ustr \<times> pyval) list"
  | PTuple "pyval list"

section \<open>The notice parser\<close>

text \<open>
  \<open>holiday_occur\<close> is the body of the first loop of \<open>parse_holiday_info\<close> for one
  match: the groups are unpacked into three names, a missing day count is one, a first
  day without a year gets the notice's, and the interval runs from the first day for the
  count of days.
\<close>

definition py_int :: "ustr \<Rightarrow> error + int" where
  "py_int s = (if s \<noteq> [] \<and> list_all is_digit s then Inr (int_of_digits s) else Inl ValueError)"

definition interval :: "ustr \<Rightarrow> ustr \<Rightarrow> bool \<Rightarrow> pyval" where
  "interval a b w = PTuple [PStr a, PStr b, PBool w]"

definition holiday_occur :: "ustr \<Rightarrow> ustr option list \<Rightarrow> error + pyval" where
  "holiday_occur year gs =
     (case gs of
        [first_holiday, last_holiday, count_day] \<Rightarrow>
          (case first_holiday of
             None \<Rightarrow> Inl TypeError
           | Some fh \<Rightarrow>
              (case strptime re_format_cn (if ch_nian \<notin> set fh then year @ [ch_nian] @ fh else fh) of
                 Inl e \<Rightarrow> Inl e
               | Inr first_day \<Rightarrow>
                  (case py_int (case count_day of None \<Rightarrow> U ''1'' | Some c \<Rightarrow> c) of
                     Inl e \<Rightarrow> Inl e
                   | Inr n \<Rightarrow>
                      (case add_days first_day (n - 1) of
                         Inl e \<Rightarrow> Inl e
                       | Inr last_day \<Rightarrow>
                           Inr (interval (strftime_iso first_day) (strftime_iso last_day) False)))))
      | _ \<Rightarrow> Inl ValueError)"

text \<open>
  The second loop, for one run of work days: a day without a month takes the text of the
  day before it up to and with U+6708, a day then without a year gets the notice's, and the
  completed day is remembered for the next.
\<close>

fun index_of :: "uchar \<Rightarrow> ustr \<Rightarrow> nat option" where
  "index_of c [] = None"
| "index_of c (x # xs) = (if x = c then Some 0 else map_option Suc (index_of c xs))"

definition fill_month :: "ustr \<Rightarrow> ustr \<Rightarrow> error + ustr" where
  "fill_month before_workday workday =
     (if ch_yue \<notin> set workday
      then (case index_of ch_yue before_workday of
              None \<Rightarrow> Inl ValueError
            | Some i \<Rightarrow> Inr (take (i + 1) before_workday @ workday))
      else Inr workday)"

definition fill_year :: "ustr \<Rightarrow> ustr \<Rightarrow> ustr" where
  "fill_year year workday = (if ch_nian \<notin> set workday then year @ [ch_nian] @ workday else workday)"

fun workdays_loop :: "ustr \<Rightarrow> ustr \<Rightarrow> ustr list \<Rightarrow> error + pyval list" where
  "workdays_loop year before_workday [] = Inr []"
| "workdays_loop year before_workday (workday # rest) =
     (case fill_month before_workday workday of
        Inl e \<Rightarrow> Inl e
      | Inr w1 \<Rightarrow>
         (case strptime re_format_cn (fill_year year w1) of
            Inl e \<Rightarrow> Inl e
          | Inr d \<Rightarrow>
             (case workdays_loop year (fill_year year w1) rest of
                Inl e \<Rightarrow> Inl e
              | Inr ivs \<Rightarrow> Inr (interval (strftime_iso d) (strftime_iso d) True # ivs))))"

definition workday_occur :: "ustr \<Rightarrow> (nat \<times> ustr) list \<Rightarrow> error + pyval list" where
  "workday_occur year g =
     (case map_of g 1 of
        None \<Rightarrow> Inl TypeError
      | Some work_str \<Rightarrow> workdays_loop year [] (findall reg_workday work_str))"

text \<open>One line of the notice: the holidays of the line, then its work days.\<close>

definition holidays_of_line :: "ustr \<Rightarrow> ustr \<Rightarrow> error + pyval list" where
  "holidays_of_line year line =
     collect (holiday_occur year)
       (map (\<lambda>m. groups reg_holiday_occur (snd m)) (finditer reg_holiday_occur None (fix_line line)))"

definition workdays_of_line :: "ustr \<Rightarrow> ustr \<Rightarrow> error + pyval list" where
  "workdays_of_line year line =
     (case collect (workday_occur year) (map snd (finditer reg_workday_occur None (fix_line line))) of
        Inl e \<Rightarrow> Inl e
      | Inr ws \<Rightarrow> Inr (concat ws))"

definition parse_line :: "ustr \<Rightarrow> ustr \<Rightarrow> error + pyval list" where
  "parse_line year line =
     (case holidays_of_line year line of
        Inl e \<Rightarrow> Inl e
      | Inr hs \<Rightarrow> (case workdays_of_line year line of Inl e \<Rightarrow> Inl e | Inr ws \<Rightarrow> Inr (hs @ ws)))"

text \<open>\<open>str.split()\<close>: the text between runs of white space.\<close>

definition is_space :: "uchar \<Rightarrow> bool" where
  "is_space c = ((9 \<le> c \<and> c \<le> 13) \<or> (28 \<le> c \<and> c \<le> 32) \<or> c = 133 \<or> c = 160 \<or> c = 5760
     \<or> (8192 \<le> c \<and> c \<le> 8202) \<or> c = 8232 \<or> c = 8233 \<or> c = 8239 \<or> c = 8287 \<or> c = 12288)"

fun split_from :: "ustr \<Rightarrow> ustr \<Rightarrow> ustr list" where
  "split_from cur [] = (if cur = [] then [] else [cur])"
| "split_from cur (x # xs) =
     (if is_space x then (if cur = [] then split_from [] xs else cur # split_from [] xs)
      else split_from (cur @ [x]) xs)"

definition split :: "ustr \<Rightarrow> ustr list" where
  "split text = split_from [] text"

text \<open>
  \<open>parse_text\<close> is \<open>parse_holiday_info\<close> from the text of the notice on: the year
  is read off the title at the start of the joined lines, then every line is parsed.
\<close>

definition parse_text :: "ustr \<Rightarrow> error + (ustr \<times> pyval list)" where
  "parse_text text =
     (case mt reg_title (None, concat (split text), []) of
        [] \<Rightarrow> Inl (WrongMessage text)
      | st # _ \<Rightarrow>
         (case map_of (snd (snd st)) 1 of
            None \<Rightarrow> Inl TypeError
          | Some year \<Rightarrow>
             (case collect (parse_line year) (split text) of
                Inl e \<Rightarrow> Inl e
              | Inr ds \<Rightarrow> Inr (year, concat ds))))"

section \<open>JSON\<close>

text \<open>
  The cache is a text file written by \<open>json.dump(..., indent=2, ensure_ascii=False)\<close>
  and read by \<open>json.load\<close>. Both are modelled on the text: the decoder is the strict
  JSON grammar with the three extra constants Python accepts, the encoder yields the
  chunks Python writes one by one. Two limits of the interpreter are left out: the nesting
  depth at which it raises \<open>RecursionError\<close> and the number of digits it accepts in an
  integer. A float is kept as the text that wrote it. The file is the text it decodes
  to: bytes that are not UTF-8, which \<open>json.load\<close> refuses like any other bad text, are
  not told apart from it.
\<close>

definition is_ws :: "uchar \<Rightarrow> bool" where
  "is_ws c = (c = 32 \<or> c = 9 \<or> c = 10 \<or> c = 13)"

definition skip_ws :: "ustr \<Rightarrow> ustr" where
  "skip_ws s = dropWhile is_ws s"

definition hexval :: "uchar \<Rightarrow> int option" where
  "hexval c =
     (if 48 \<le> c \<and> c \<le> 57 then Some (c - 48)
      else if 97 \<le> c \<and> c \<le> 102 then Some (c - 87)
      else if 65 \<le> c \<and> c \<le> 70 then Some (c - 55)
      else None)"

definition hex4 :: "ustr \<Rightarrow> int option" where
  "hex4 s =
     (case s of
        a # b # c # d # _ \<Rightarrow>
          (case (hexval a, hexval b, hexval c, hexval d) of
             (Some x, Some y, Some z, Some t) \<Rightarrow> Some (((x * 16 + y) * 16 + z) * 16 + t)
           | _ \<Rightarrow> None)
      | _ \<Rightarrow> None)"

text \<open>
  The code point after \<open>\u\<close> and the number of characters read for it: four, or ten
  when a high surrogate is followed by the escape of a low one.
\<close>

definition decode_u :: "ustr \<Rightarrow> (uchar \<times> nat) option" where
  "decode_u es =
     (case hex4 es of
        None \<Rightarrow> None
      | Some u \<Rightarrow>
         (if 55296 \<le> u \<and> u \<le> 56319 \<and> take 2 (drop 4 es) = [92, 117]
          then (case hex4 (drop 6 es) of
                  None \<Rightarrow> None
                | Some u2 \<Rightarrow>
                   (if 56320 \<le> u2 \<and> u2 \<le> 57343
                    then Some (65536 + (u - 55296) * 1024 + (u2 - 56320), 10)
                    else Some (u, 4)))
          else Some (u, 4)))"

definition unescape :: "uchar \<Rightarrow> uchar option" where
  "unescape e =
     (if e = 34 then Some 34 else if e = 92 then Some 92 else if e = 47 then Some 47
      else if e = 98 then Some 8 else if e = 102 then Some 12 else if e = 110 then Some 10
      else if e = 114 then Some 13 else if e = 116 then Some 9 else None)"

text \<open>The text of a string after its opening quote: the string and what follows the closing quote.\<close>

function scanstring :: "ustr \<Rightarrow> (ustr \<times> ustr) option" where
  "scanstring s =
     (case s of
        [] \<Rightarrow> None
      | c # cs \<Rightarrow>
         (if c = 34 then Some ([], cs)
          else if c = 92 then
            (case cs of
               [] \<Rightarrow> None
             | e # es \<Rightarrow>
                (if e = 117 then
                   (case decode_u es of
                      None \<Rightarrow> None
                    | Some (u, k) \<Rightarrow>
                       (case scanstring (drop k es) of
                          None \<Rightarrow> None
                        | Some (x, r) \<Rightarrow> Some (u # x, r)))
                 else
                   (case unescape e of
                      None \<Rightarrow> None
                    | Some ch \<Rightarrow>
                       (case scanstring es of
                          None \<Rightarrow> None
                        | Some (x, r) \<Rightarrow> Some (ch # x, r)))))
          else if c < 32 then None
          else (case scanstring cs of None \<Rightarrow> None | Some (x, r) \<Rightarrow> Some (c # x, r))))"
  by pat_completeness auto
termination
  by (relation "measure length") auto

text \<open>
  A number: an optional sign, \<open>0\<close> or a run of digits that starts with none, an optional
  fraction, an optional exponent. Without fraction and exponent it is an integer.
\<close>

definition scan_frac :: "ustr \<Rightarrow> ustr" where
  "scan_frac s =
     (case s of
        c # d # t \<Rightarrow> (if c = 46 \<and> is_digit d then c # d # takeWhile is_digit t else [])
      | _ \<Rightarrow> [])"

definition scan_exp :: "ustr \<Rightarrow> ustr" where
  "scan_exp s =
     (case s of
        e # t \<Rightarrow>
          (if e = 101 \<or> e = 69 then
             (case t of
                c # u \<Rightarrow>
                  (if is_digit c then e # c # takeWhile is_digit u
                   else if c = 43 \<or> c = 45 then
                     (case u of
                        d # v \<Rightarrow> (if is_digit d then e # c # d # takeWhile is_digit v else [])
                      | [] \<Rightarrow> [])
                   else [])
              | [] \<Rightarrow> [])
           else [])
      | [] \<Rightarrow> [])"

definition scan_int :: "ustr \<Rightarrow> ustr" where
  "scan_int s =
     (case s of
        [] \<Rightarrow> []
      | c # t \<Rightarrow> (if c = 48 then [c] else if 49 \<le> c \<and> c \<le> 57 then c # takeWhile is_digit t else []))"

definition scan_number :: "ustr \<Rightarrow> (pyval \<times> ustr) option" where
  "scan_number s =
     (let sign = (case s of [] \<Rightarrow> [] | c # _ \<Rightarrow> if c = 45 then [c] else []);
          ip = scan_int (drop (length sign) s);
          fp = scan_frac (drop (length sign + length ip) s);
          ep = scan_exp (drop (length sign + length ip + length fp) s);
          n = length sign + length ip + length fp + length ep
      in if ip = [] then None
         else if fp = [] \<and> ep = []
         then Some (PInt (if sign = [] then int_of_digits ip else - int_of_digits ip), drop n s)
         else Some (PFloat (take n s), drop n s))"

definition starts_with :: "ustr \<Rightarrow> ustr \<Rightarrow> bool" where
  "starts_with pre s = (take (length pre) s = pre)"

definition scan_const :: "ustr \<Rightarrow> (pyval \<times> ustr) option" where
  "scan_const s =
     (if starts_with (U ''null'') s then Some (PNone, drop 4 s)
      else if starts_with (U ''true'') s then Some (PBool True, drop 4 s)
      else if starts_with (U ''false'') s then Some (PBool False, drop 5 s)
      else if starts_with (U ''NaN'') s then Some (PFloat (U ''NaN''), drop 3 s)
      else if starts_with (U ''Infinity'') s then Some (PFloat (U ''Infinity''), drop 8 s)
      else if starts_with (U ''-Infinity'') s then Some (PFloat (U ''-Infinity''), drop 9 s)
      else scan_number s)"

text \<open>\<open>d[k] = v\<close> and \<open>d.get(k, None)\<close> on a dict in insertion order.\<close>

fun dict_set :: "(ustr \<times> pyval) list \<Rightarrow> ustr \<Rightarrow> pyval \<Rightarrow> (ustr \<times> pyval) list" where
  "dict_set [] k v = [(k, v)]"
| "dict_set ((k', v') # d) k v = (if k' = k then (k, v) # d else (k', v') # dict_set d k v)"

definition dict_get :: "(ustr \<times> pyval) list \<Rightarrow> ustr \<Rightarrow> pyval" where
  "dict_get d k = (case map_of d k of None \<Rightarrow> PNone | Some v \<Rightarrow> v)"

definition dict_of_pairs :: "(ustr \<times> pyval) list \<Rightarrow> (ustr \<times> pyval) list" where
  "dict_of_pairs kvs = foldl (\<lambda>d kv. dict_set d (fst kv) (snd kv)) [] kvs"

text \<open>
  The recursive descent over values, the elements of an array and the members of an
  object. The first argument bounds the number of nested calls; \<open>json_loads\<close> gives
  enough for any text.
\<close>

fun scan_once :: "nat \<Rightarrow> ustr \<Rightarrow> (pyval \<times> ustr) option"
  and scan_array :: "nat \<Rightarrow> ustr \<Rightarrow> (pyval list \<times> ustr) option"
  and scan_object :: "nat \<Rightarrow> ustr \<Rightarrow> ((ustr \<times> pyval) list \<times> ustr) option" where
  "scan_once 0 s = None"
| "scan_once (Suc n) s =
     (case s of
        [] \<Rightarrow> None
      | c # t \<Rightarrow>
         (if c = 34 then (case scanstring t of None \<Rightarrow> None | Some (x, r) \<Rightarrow> Some (PStr x, r))
          else if c = 123 then
            (case skip_ws t of
               [] \<Rightarrow> None
             | c' # r \<Rightarrow>
                (if c' = 125 then Some (PDict [], r)
                 else (case scan_object n (c' # r) of
                         None \<Rightarrow> None
                       | Some (kvs, r') \<Rightarrow> Some (PDict (dict_of_pairs kvs), r'))))
          else if c = 91 then
            (case skip_ws t of
               [] \<Rightarrow> None
             | c' # r \<Rightarrow>
                (if c' = 93 then Some (PList [], r)
                 else (case scan_array n (c' # r) of
                         None \<Rightarrow> None
                       | Some (vs, r') \<Rightarrow> Some (PList vs, r'))))
          else scan_const s))"
| "scan_array 0 s = None"
| "scan_array (Suc n) s =
     (case scan_once n s of
        None \<Rightarrow> None
      | Some (v, r) \<Rightarrow>
         (case skip_ws r of
            [] \<Rightarrow> None
          | c # r' \<Rightarrow>
             (if c = 93 then Some ([v], r')
              else if c = 44 then
                (case scan_array n (skip_ws r') of
                   None \<Rightarrow> None
                 | Some (vs, r'') \<Rightarrow> Some (v # vs, r''))
              else None)))"
| "scan_object 0 s = None"
| "scan_object (Suc n) s =
     (case s of
        [] \<Rightarrow> None
      | q # t \<Rightarrow>
         (if q \<noteq> 34 then None
          else
           (case scanstring t of
              None \<Rightarrow> None
            | Some (k, r) \<Rightarrow>
               (case skip_ws r of
                  [] \<Rightarrow> None
                | c # r1 \<Rightarrow>
                   (if c \<noteq> 58 then None
                    else
                     (case scan_once n (skip_ws r1) of
                        None \<Rightarrow> None
                      | Some (v, r2) \<Rightarrow>
                         (case skip_ws r2 of
                            [] \<Rightarrow> None
                          | c2 # r3 \<Rightarrow>
                             (if c2 = 125 then Some ([(k, v)], r3)
                              else if c2 = 44 then
                                (case scan_object n (skip_ws r3) of
                                   None \<Rightarrow> None
                                 | Some (kvs, r4) \<Rightarrow> Some ((k, v) # kvs, r4))
                              else None))))))))"

definition json_loads :: "ustr \<Rightarrow> error + pyval" where
  "json_loads s =
     (case scan_once (2 * length s + 2) (skip_ws s) of
        None \<Rightarrow> Inl JSONDecodeError
      | Some (v, r) \<Rightarrow> (if skip_ws r = [] then Inr v else Inl JSONDecodeError))"

subsection \<open>The encoder\<close>

definition hexdig :: "int \<Rightarrow> uchar" where
  "hexdig n = (if n < 10 then 48 + n else 87 + n)"

definition esc_char :: "uchar \<Rightarrow> ustr" where
  "esc_char c =
     (if c = 34 then [92, 34] else if c = 92 then [92, 92] else if c = 10 then [92, 110]
      else if c = 13 then [92, 114] else if c = 9 then [92, 116] else if c = 8 then [92, 98]
      else if c = 12 then [92, 102]
      else if 0 \<le> c \<and> c < 32 then [92, 117, 48, 48, hexdig (c div 16), hexdig (c mod 16)]
      else [c])"

definition encode_str :: "ustr \<Rightarrow> ustr" where
  "encode_str s = [34] @ concat (map esc_char s) @ [34]"

function nat_digits :: "int \<Rightarrow> ustr" where
  "nat_digits n = (if n < 10 then [48 + n] else nat_digits (n div 10) @ [48 + n mod 10])"
  by pat_completeness auto
termination
  by (relation "measure nat") auto

definition int_str :: "int \<Rightarrow> ustr" where
  "int_str i = (if i < 0 then 45 # nat_digits (- i) else nat_digits i)"

definition newline_indent :: "nat \<Rightarrow> ustr" where
  "newline_indent level = 10 # replicate (2 * level) 32"

text \<open>The text of a value that is written in one piece, if it is one.\<close>

fun scalar :: "pyval \<Rightarrow> ustr option" where
  "scalar PNone = Some (U ''null'')"
| "scalar (PBool b) = Some (if b then U ''true'' else U ''false'')"
| "scalar (PInt i) = Some (int_str i)"
| "scalar (PFloat x) = Some x"
| "scalar (PStr x) = Some (encode_str x)"
| "scalar (PList vs) = None"
| "scalar (PDict kvs) = None"
| "scalar (PTuple vs) = None"

text \<open>
  The chunks of \<open>_iterencode\<close>, at a nesting level. In a list the separator comes in
  the same chunk as a scalar element; in a dict every piece is a chunk of its own.
\<close>

fun iterencode :: "nat \<Rightarrow> pyval \<Rightarrow> ustr list"
  and iterencode_list :: "nat \<Rightarrow> ustr \<Rightarrow> pyval list \<Rightarrow> ustr list"
  and iterencode_dict :: "nat \<Rightarrow> bool \<Rightarrow> (ustr \<times> pyval) list \<Rightarrow> ustr list" where
  "iterencode level (PList vs) =
     (if vs = [] then [U ''[]'']
      else iterencode_list (Suc level) (91 # newline_indent (Suc level)) vs
             @ [newline_indent level, [93]])"
| "iterencode level (PDict kvs) =
     (if kvs = [] then [U ''{}'']
      else [[123], newline_indent (Suc level)] @ iterencode_dict (Suc level) True kvs
             @ [newline_indent level, [125]])"
| "iterencode level (PTuple vs) =
     (if vs = [] then [U ''[]'']
      else iterencode_list (Suc level) (91 # newline_indent (Suc level)) vs
             @ [newline_indent level, [93]])"
| "iterencode level PNone = [U ''null'']"
| "iterencode level (PBool b) = [if b then U ''true'' else U ''false'']"
| "iterencode level (PInt i) = [int_str i]"
| "iterencode level (PFloat x) = [x]"
| "iterencode level (PStr x) = [encode_str x]"
| "iterencode_list level buf [] = []"
| "iterencode_list level buf (v # vs) =
     (case scalar v of
        Some t \<Rightarrow> [buf @ t]
      | None \<Rightarrow> buf # iterencode level v)
     @ iterencode_list level (44 # newline_indent level) vs"
| "iterencode_dict level first [] = []"
| "iterencode_dict level first (kv # kvs) =
     (if first then [] else [44 # newline_indent level])
     @ [encode_str (fst kv), [58, 32]]
     @ (case scalar (snd kv) of Some t \<Rightarrow> [t] | None \<Rightarrow> iterencode level (snd kv))
     @ iterencode_dict level False kvs"

definition json_dumps :: "pyval \<Rightarrow> ustr" where
  "json_dumps v = concat (iterencode 0 v)"

text \<open>A chunk can be written to a UTF-8 file when it holds no surrogate code point.\<close>

definition encodable :: "ustr \<Rightarrow> bool" where
  "encodable chunk = list_all (\<lambda>c. c < 55296 \<or> 57343 < c) chunk"

section \<open>The cache and the outside\<close>

text \<open>
  The state the program runs against: the text of the cache file (none when the file does
  not exist), what the search service answers for a title (the request fails, the answer
  has not the expected shape, or it lists titles with their links) and the text of the
  content element of the page at a link.
\<close>

record world =
  cache_file :: "ustr option"
  search_response :: "ustr \<Rightarrow> error + (ustr \<times> ustr) list option"
  page_text :: "ustr \<Rightarrow> error + ustr"

text \<open>\<open>save_all_holiday\<close>: the file is emptied, then the chunks are written up to the first that cannot be.\<close>

definition save_all_holiday :: "world \<Rightarrow> pyval \<Rightarrow> (error + unit) \<times> world" where
  "save_all_holiday w all_holiday =
     (let chunks = iterencode 0 all_holiday; written = takeWhile encodable chunks
      in if length written = length chunks
         then (Inr (), w\<lparr>cache_file := Some (concat chunks)\<rparr>)
         else (Inl UnicodeEncodeError, w\<lparr>cache_file := Some (concat written)\<rparr>))"

definition read_all_holiday :: "world \<Rightarrow> error + pyval" where
  "read_all_holiday w =
     (case cache_file w of
        None \<Rightarrow> Inl FileNotFoundError
      | Some txt \<Rightarrow>
         (case json_loads txt of
            Inl e \<Rightarrow> Inr (PDict [])
          | Inr all_holiday \<Rightarrow>
             (case all_holiday of PDict d \<Rightarrow> Inr all_holiday | _ \<Rightarrow> Inr (PDict []))))"

text \<open>
  \<open>search_notice_url\<close>: the link of the first entry whose title is the title of the
  year's notice. The title is the prefix, the year and U+5E74 U+90E8 U+5206 U+8282 U+5047
  U+65E5 U+5B89 U+6392 U+7684 U+901A U+77E5.
\<close>

definition notice_title :: "ustr \<Rightarrow> ustr" where
  "notice_title year =
     title_prefix @ year @ [24180, 37096, 20998, 33410, 20551, 26085, 23433, 25490, 30340, 36890, 30693]"

definition search_notice_url :: "world \<Rightarrow> ustr \<Rightarrow> error + ustr option" where
  "search_notice_url w year =
     (case search_response w (notice_title year) of
        Inl e \<Rightarrow> Inl e
      | Inr None \<Rightarrow> Inr None
      | Inr (Some items) \<Rightarrow> Inr (map_of items (notice_title year)))"

definition parse_holiday_info :: "world \<Rightarrow> ustr option \<Rightarrow> error + (ustr \<times> pyval list)" where
  "parse_holiday_info w url =
     (case url of
        None \<Rightarrow> Inl FetchError
      | Some u \<Rightarrow> (case page_text w u of Inl e \<Rightarrow> Inl e | Inr text \<Rightarrow> parse_text text))"

text \<open>
  \<open>get_holiday_data\<close>. \<open>load_cached\<close> is its first part: \<open>all_holiday\<close> is bound only
  when the file exists, \<open>holiday_data\<close> is the year's entry or \<open>None\<close>.
\<close>

definition load_cached :: "world \<Rightarrow> ustr \<Rightarrow> error + ((ustr \<times> pyval) list option \<times> pyval)" where
  "load_cached w year =
     (if cache_file w \<noteq> None
      then (case read_all_holiday w of
              Inl e \<Rightarrow> Inl e
            | Inr all_holiday \<Rightarrow>
               (case all_holiday of
                  PDict d \<Rightarrow> Inr (Some d, dict_get d year)
                | _ \<Rightarrow> Inl TypeError))
      else Inr (None, PNone))"

definition get_holiday_data :: "world \<Rightarrow> ustr \<Rightarrow> bool \<Rightarrow> (error + pyval) \<times> world" where
  "get_holiday_data w year force_refresh =
     (case load_cached w year of
        Inl e \<Rightarrow> (Inl e, w)
      | Inr (all_holiday, holiday_data) \<Rightarrow>
         (if holiday_data = PNone \<or> force_refresh then
            (case search_notice_url w year of
               Inl e \<Rightarrow> (Inl e, w)
             | Inr url \<Rightarrow>
                (case parse_holiday_info w url of
                   Inl e \<Rightarrow> (Inl e, w)
                 | Inr (parsed_year, new_data) \<Rightarrow>
                    (if parsed_year \<noteq> year \<or> length new_data = 0
                     then (Inl (CanNotParse url), w)
                     else
                      (case all_holiday of
                         None \<Rightarrow> (Inl UnboundLocalError, w)
                       | Some d \<Rightarrow>
                          (case save_all_holiday w (PDict (dict_set d year (PList new_data))) of
                             (Inl e, w') \<Rightarrow> (Inl e, w')
                           | (Inr u, w') \<Rightarrow> (Inr (PList new_data), w'))))))
          else (Inr holiday_data, w)))"

section \<open>The classifier\<close>

text \<open>The argument of \<open>is_holiday\<close>: a string, a datetime, or a value of another type.\<close>

datatype arg = AStr ustr | ADatetime datetime | AOther

text \<open>Unpacking a cached line into three names, and the two built-ins applied to its parts.\<close>

definition unpack3 :: "pyval \<Rightarrow> error + (pyval \<times> pyval \<times> pyval)" where
  "unpack3 v =
     (case v of
        PList [a, b, c] \<Rightarrow> Inr (a, b, c)
      | PList _ \<Rightarrow> Inl ValueError
      | PStr [a, b, c] \<Rightarrow> Inr (PStr [a], PStr [b], PStr [c])
      | PStr _ \<Rightarrow> Inl ValueError
      | PDict [a, b, c] \<Rightarrow> Inr (PStr (fst a), PStr (fst b), PStr (fst c))
      | PDict _ \<Rightarrow> Inl ValueError
      | PTuple [a, b, c] \<Rightarrow> Inr (a, b, c)
      | PTuple _ \<Rightarrow> Inl ValueError
      | _ \<Rightarrow> Inl TypeError)"

definition strptime_iso :: "pyval \<Rightarrow> error + datetime" where
  "strptime_iso v = (case v of PStr s \<Rightarrow> strptime re_format_iso s | _ \<Rightarrow> Inl TypeError)"

text \<open>
  \<open>not v\<close>. A float counts as zero when its text has no digit but 0 before the exponent;
  a float that underflows to zero is not told apart.
\<close>

definition py_not :: "pyval \<Rightarrow> bool" where
  "py_not v =
     (case v of
        PNone \<Rightarrow> True
      | PBool b \<Rightarrow> \<not> b
      | PInt i \<Rightarrow> i = 0
      | PFloat x \<Rightarrow> list_all (\<lambda>c. c < 49 \<or> 57 < c) (takeWhile (\<lambda>c. c \<noteq> 101 \<and> c \<noteq> 69) x)
                      \<and> x \<noteq> U ''NaN'' \<and> x \<noteq> U ''Infinity'' \<and> x \<noteq> U ''-Infinity''
      | PStr s \<Rightarrow> s = []
      | PList vs \<Rightarrow> vs = []
      | PDict kvs \<Rightarrow> kvs = []
      | PTuple vs \<Rightarrow> vs = [])"

fun scan_lines :: "datetime \<Rightarrow> pyval list \<Rightarrow> error + bool" where
  "scan_lines date_time [] = Inr (weekday date_time = 5 \<or> weekday date_time = 6)"
| "scan_lines date_time (holiday_line # rest) =
     (case unpack3 holiday_line of
        Inl e \<Rightarrow> Inl e
      | Inr (from_date, to_date, work) \<Rightarrow>
         (case strptime_iso from_date of
            Inl e \<Rightarrow> Inl e
          | Inr from_dt \<Rightarrow>
             (case strptime_iso to_date of
                Inl e \<Rightarrow> Inl e
              | Inr to_dt \<Rightarrow>
                 (if dt_le from_dt date_time \<and> dt_le date_time to_dt then Inr (py_not work)
                  else scan_lines date_time rest))))"

definition to_datetime :: "arg \<Rightarrow> error + datetime" where
  "to_datetime a =
     (case a of
        AStr s \<Rightarrow> strptime re_format_iso s
      | ADatetime d \<Rightarrow> Inr d
      | AOther \<Rightarrow> Inl AssertionError)"

definition is_holiday :: "world \<Rightarrow> arg \<Rightarrow> (error + bool) \<times> world" where
  "is_holiday w a =
     (case to_datetime a of
        Inl e \<Rightarrow> (Inl e, w)
      | Inr date_time \<Rightarrow>
         (case get_holiday_data w (strftime_Y date_time) False of
            (Inl e, w') \<Rightarrow> (Inl e, w')
          | (Inr holiday_lines, w') \<Rightarrow>
             (case holiday_lines of
                PList ls \<Rightarrow>
                  (if length ls > 0
                   then (scan_lines date_time ls, w')
                   else (Inl AssertionError, w'))
              | _ \<Rightarrow> (Inl AssertionError, w'))))"


section \<open>Notions of the specification and examples\<close>

text \<open>
  A day mention of a run of work days, by its parts: the digits of the year and of the
  month, either of which may be missing, and the digits of the day. \<open>render\<close> is its
  text. \<open>inherit_spec\<close> states the inheritance rule on the parts: a mention
  that states its month takes its own year, or the notice's when it states none; a mention
  without a month takes year and month of the last mention that stated a month, and there
  is nothing to take before the first such mention. \<open>emit_spec\<close> turns the completed
  parts into the interval.
\<close>

type_synonym mention = "ustr option \<times> ustr option \<times> ustr"

fun render :: "mention \<Rightarrow> ustr" where
  "render (y, m, d) =
     (case y of None \<Rightarrow> [] | Some ys \<Rightarrow> ys @ [ch_nian]) @
     (case m of None \<Rightarrow> [] | Some ms \<Rightarrow> ms @ [ch_yue]) @ d @ [ch_ri]"

fun wf_mention :: "mention \<Rightarrow> bool" where
  "wf_mention (y, m, d) =
     (list_all is_digit d \<and> (case m of None \<Rightarrow> y = None | Some ms \<Rightarrow> list_all is_digit ms)
      \<and> (case y of None \<Rightarrow> True | Some ys \<Rightarrow> list_all is_digit ys))"

fun inherit_spec :: "ustr \<Rightarrow> (ustr \<times> ustr) option \<Rightarrow> mention list \<Rightarrow> (ustr \<times> ustr \<times> ustr) option list" where
  "inherit_spec year st [] = []"
| "inherit_spec year st ((y, Some m, d) # ms) =
     Some (case y of None \<Rightarrow> year | Some ys \<Rightarrow> ys, m, d)
       # inherit_spec year (Some (case y of None \<Rightarrow> year | Some ys \<Rightarrow> ys, m)) ms"
| "inherit_spec year st ((y, None, d) # ms) =
     (case st of None \<Rightarrow> [None] | Some (cy, cm) \<Rightarrow> Some (cy, cm, d) # inherit_spec year st ms)"

definition emit_spec :: "(ustr \<times> ustr \<times> ustr) option \<Rightarrow> error + pyval" where
  "emit_spec r =
     (case r of
        None \<Rightarrow> Inl ValueError
      | Some (y, m, d) \<Rightarrow>
         (case strptime re_format_cn (y @ [ch_nian] @ m @ [ch_yue] @ d @ [ch_ri]) of
            Inl e \<Rightarrow> Inl e
          | Inr t \<Rightarrow> Inr (interval (strftime_iso t) (strftime_iso t) True)))"

text \<open>
  A line that is an interval with two dates and does not hold the date: \<open>miss\<close>.
  \<open>cached_line\<close> is an interval as the cache file gives it back, a list. The
  comparison is the program's, on datetimes; for a date, which has time of day 0, it is
  the inclusive range of days.
\<close>

definition cached_line :: "ustr \<Rightarrow> ustr \<Rightarrow> bool \<Rightarrow> pyval" where
  "cached_line a b w = PList [PStr a, PStr b, PBool w]"

fun as_interval :: "pyval \<Rightarrow> (ustr \<times> ustr \<times> pyval) option" where
  "as_interval (PList [PStr s, PStr e, work]) = Some (s, e, work)"
| "as_interval (PTuple [PStr s, PStr e, work]) = Some (s, e, work)"
| "as_interval _ = None"

definition miss :: "datetime \<Rightarrow> pyval \<Rightarrow> bool" where
  "miss date_time line =
     (case as_interval line of
        None \<Rightarrow> False
      | Some (s, e, work) \<Rightarrow>
         (case strptime re_format_iso s of
            Inl x \<Rightarrow> False
          | Inr from_dt \<Rightarrow>
             (case strptime re_format_iso e of
                Inl x \<Rightarrow> False
              | Inr to_dt \<Rightarrow> \<not> (dt_le from_dt date_time \<and> dt_le date_time to_dt))))"

text \<open>The lines of the examples: a holiday from 1 to 8 October, and work on 19 January.\<close>

definition line_holiday :: ustr where
  "line_holiday = U ''10'' @ [ch_yue] @ U ''1'' @ [ch_ri, ch_zhi] @ U ''10'' @ [ch_yue] @ U ''8''
     @ [ch_ri, ch_fang, ch_jia]"

definition line_workday :: ustr where
  "line_workday = U ''1'' @ [ch_yue] @ U ''19'' @ [ch_ri, ch_shang, ch_ban]"

definition line_workday_ju :: ustr where
  "line_workday_ju = line_workday @ [ch_ju]"


definition line_other_year :: ustr where
  "line_other_year = U ''2021'' @ [ch_nian] @ U ''1'' @ [ch_yue] @ U ''2'' @ [ch_ri, ch_dun]
     @ U ''3'' @ [ch_ri, ch_shang, ch_ban, ch_ju]"

definition mentions_example :: "mention list" where
  "mentions_example =
     [(Some (U ''2021''), Some (U ''1''), U ''2''), (None, None, U ''3''),
      (None, Some (U ''2''), U ''7''), (None, None, U ''8'')]"

text \<open>
  Notices: the title of the year and one work day. A world in which the search finds the
  notice and the page holds the given text, with a given cache file.
\<close>

definition notice_2020 :: ustr where
  "notice_2020 = notice_title (U ''2020'') @ [32] @ line_workday_ju"

definition notice_2021 :: ustr where
  "notice_2021 = notice_title (U ''2021'') @ [32] @ U ''2'' @ [ch_yue] @ U ''7''
     @ [ch_ri, ch_shang, ch_ban, ch_ju]"

definition notice_empty :: ustr where
  "notice_empty = notice_title (U ''2020'')"

definition notice_url :: ustr where
  "notice_url = U ''https://www.gov.cn/notice''"

definition web :: "ustr \<Rightarrow> ustr option \<Rightarrow> world" where
  "web notice cache =
     \<lparr>cache_file = cache,
      search_response = (\<lambda>t. Inr (Some [(t, notice_url)])),
      page_text = (\<lambda>u. Inr notice)\<rparr>"

text \<open>
  A cache: 2020 with a work day, a holiday and a work day inside the holiday; 2021 with
  no line at all.
\<close>

definition store_2020 :: "(ustr \<times> pyval) list" where
  "store_2020 =
     [(U ''2020'',
       PList [cached_line (U ''2020-01-19'') (U ''2020-01-19'') True,
              cached_line (U ''2020-10-01'') (U ''2020-10-08'') False,
              cached_line (U ''2020-10-03'') (U ''2020-10-03'') True]),
      (U ''2021'', PList [])]"

definition cache_2020 :: ustr where
  "cache_2020 = json_dumps (PDict store_2020)"

definition day :: "int \<Rightarrow> int \<Rightarrow> int \<Rightarrow> datetime" where
  "day y m d = \<lparr>dt_year = y, dt_month = m, dt_day = d, dt_time = 0\<rparr>"

text \<open>
  A holiday store as the specification has it: years with their triples.
  \<open>tuple_store\<close> is the value the program builds for it from parsed notices, with
  tuples; \<open>list_store\<close> is the value the cache file gives back, with lists;
  \<open>store_of\<close> reads the years and triples off either. A store is well formed when no
  year occurs twice and its strings are plain: no character that JSON escapes (a quote, a
  backslash, a control character) and no surrogate. \<open>good\<close> says the same of any value
  without numbers and tuples, and \<open>listify\<close> turns the tuples of a value into lists.
\<close>

type_synonym holiday_store = "(ustr \<times> (ustr \<times> ustr \<times> bool) list) list"

definition tuple_store :: "holiday_store \<Rightarrow> pyval" where
  "tuple_store st =
     PDict (map (\<lambda>yr. (fst yr, PList (map (\<lambda>iv. interval (fst iv) (fst (snd iv)) (snd (snd iv))) (snd yr)))) st)"

definition list_store :: "holiday_store \<Rightarrow> pyval" where
  "list_store st =
     PDict (map (\<lambda>yr. (fst yr, PList (map (\<lambda>iv. cached_line (fst iv) (fst (snd iv)) (snd (snd iv))) (snd yr)))) st)"

fun triple_of :: "pyval \<Rightarrow> (ustr \<times> ustr \<times> bool) option" where
  "triple_of (PList [PStr a, PStr b, PBool w]) = Some (a, b, w)"
| "triple_of (PTuple [PStr a, PStr b, PBool w]) = Some (a, b, w)"
| "triple_of _ = None"

definition triples_of :: "pyval \<Rightarrow> (ustr \<times> ustr \<times> bool) list option" where
  "triples_of v = (case v of PList ls \<Rightarrow> those (map triple_of ls) | _ \<Rightarrow> None)"

definition store_of :: "pyval \<Rightarrow> holiday_store option" where
  "store_of v =
     (case v of
        PDict d \<Rightarrow> map_option (zip (map fst d)) (those (map (\<lambda>kv. triples_of (snd kv)) d))
      | _ \<Rightarrow> None)"

definition plain_char :: "uchar \<Rightarrow> bool" where
  "plain_char c = (32 \<le> c \<and> c \<noteq> 34 \<and> c \<noteq> 92 \<and> (c < 55296 \<or> 57343 < c))"

definition plain :: "ustr \<Rightarrow> bool" where
  "plain s = list_all plain_char s"

definition wf_store :: "holiday_store \<Rightarrow> bool" where
  "wf_store st =
     (distinct (map fst st)
      \<and> list_all (\<lambda>yr. plain (fst yr) \<and> list_all (\<lambda>iv. plain (fst iv) \<and> plain (fst (snd iv))) (snd yr)) st)"

definition store_example :: holiday_store where
  "store_example =
     [(U ''2020'', [(U ''2020-01-19'', U ''2020-01-19'', True), (U ''2020-10-01'', U ''2020-10-08'', False)]),
      (U ''2021'', [])]"

fun good :: "pyval \<Rightarrow> bool" where
  "good PNone = True"
| "good (PBool b) = True"
| "good (PInt i) = False"
| "good (PFloat x) = False"
| "good (PStr s) = plain s"
| "good (PList vs) = list_all good vs"
| "good (PDict kvs) = (distinct (map fst kvs) \<and> list_all (\<lambda>kv. plain (fst kv) \<and> good (snd kv)) kvs)"
| "good (PTuple vs) = False"

fun listify :: "pyval \<Rightarrow> pyval" where
  "listify (PList vs) = PList (map listify vs)"
| "listify (PTuple vs) = PList (map listify vs)"
| "listify (PDict kvs) = PDict (map (\<lambda>kv. (fst kv, listify (snd kv))) kvs)"
| "listify v = v"

section \<open>Properties of the notice parser\<close>

lemma groups_holiday: "\<exists>a b. groups reg_holiday_occur g = [a, b]"
  by (simp add: groups_def reg_holiday_occur_def d4_def d12_def)

text \<open>
  The holiday pattern has two groups and the loop unpacks three values: whatever the
  match, the body of the loop raises.
\<close>

lemma holiday_occur_unpack: "holiday_occur year (groups reg_holiday_occur g) = Inl ValueError"
proof -
  obtain a b where "groups reg_holiday_occur g = [a, b]" using groups_holiday by blast
  then show ?thesis by (simp add: holiday_occur_def)
qed

text \<open>
  Had the match three groups, the third missing, the interval would be the first day
  alone: the last day that was matched is not read.
\<close>

lemma holiday_occur_ignores_last_day:
  "holiday_occur (U ''2020'')
     [Some (U ''10'' @ [ch_yue] @ U ''1'' @ [ch_ri]), Some (U ''10'' @ [ch_yue] @ U ''8'' @ [ch_ri]), None]
     = Inr (interval (U ''2020-10-01'') (U ''2020-10-01'') False)"
  by code_simp

text \<open>
  C1. For the notice year 2020, the holiday extraction on the line of 1 to 8 October
  does not yield the interval from 2020-10-01 to 2020-10-08: it raises \<open>ValueError\<close>,
  and so does the parsing of the line.
\<close>

theorem C1_holiday_range_raises:
  "holidays_of_line (U ''2020'') line_holiday = Inl ValueError
   \<and> parse_line (U ''2020'') line_holiday = Inl ValueError"
  by code_simp





text \<open>
  C4, as the claim states it: in the run "2021, month 1, day 2; day 3" of the notice of
  2020 the second day states no year, and the year it gets is 2021, not the notice's.
\<close>

theorem C4_year_of_the_run_not_of_the_notice:
  "workdays_of_line (U ''2020'') line_other_year
     = Inr [interval (U ''2021-01-02'') (U ''2021-01-02'') True,
            interval (U ''2021-01-03'') (U ''2021-01-03'') True]"
  by code_simp

lemma index_of_append:
  "c \<notin> set xs \<Longrightarrow> index_of c (xs @ c # ys) = Some (length xs)"
  by (induction xs) auto

lemma digits_no_yue: "list_all is_digit s \<Longrightarrow> ch_yue \<notin> set s"
  by (auto simp: list_all_iff is_digit_def ch_yue_def)

lemma digits_no_nian: "list_all is_digit s \<Longrightarrow> ch_nian \<notin> set s"
  by (auto simp: list_all_iff is_digit_def ch_nian_def)

lemma emit_spec_None: "emit_spec None = Inl ValueError"
  by (simp add: emit_spec_def)

lemma emit_spec_Some:
  "emit_spec (Some (y, m, d)) =
     (case strptime re_format_cn (y @ [ch_nian] @ m @ [ch_yue] @ d @ [ch_ri]) of
        Inl e \<Rightarrow> Inl e
      | Inr t \<Rightarrow> Inr (interval (strftime_iso t) (strftime_iso t) True))"
  by (simp add: emit_spec_def)

text \<open>
  The loop and the rule agree from any point of a run on: \<open>before\<close> is empty as long as
  no month was stated, and starts with the year and the month in force afterwards.
\<close>

lemma workdays_loop_inherit:
  assumes "list_all is_digit year" "list_all wf_mention ms"
    and "case st of None \<Rightarrow> before = []
         | Some (cy, cm) \<Rightarrow> list_all is_digit cy \<and> list_all is_digit cm
             \<and> (\<exists>r. before = cy @ [ch_nian] @ cm @ [ch_yue] @ r)"
  shows "workdays_loop year before (map render ms) = collect emit_spec (inherit_spec year st ms)"
  using assms
proof (induction ms arbitrary: st before)
  case Nil
  then show ?case by simp
next
  case (Cons m ms)
  obtain y mo d where m: "m = (y, mo, d)" by (cases m)
  from Cons.prems m have wf: "list_all is_digit d" "list_all wf_mention ms" by auto
  show ?case
  proof (cases mo)
    case None
    with Cons.prems m have y: "y = None" by simp
    have no: "ch_yue \<notin> set (render m)" using digits_no_yue [OF wf(1)] None y m
      by (auto simp: ch_yue_def ch_ri_def)
    show ?thesis
    proof (cases st)
      case stN: None
      with Cons.prems have "before = []" by simp
      then show ?thesis using None stN m no y
        by (simp add: fill_month_def emit_spec_None)
    next
      case (Some p)
      obtain cy cm where p: "p = (cy, cm)" by (cases p)
      from Cons.prems Some p obtain r where
        b: "list_all is_digit cy" "list_all is_digit cm" "before = cy @ [ch_nian] @ cm @ [ch_yue] @ r"
        by auto
      have "ch_yue \<notin> set (cy @ [ch_nian] @ cm)"
        using digits_no_yue [OF b(1)] digits_no_yue [OF b(2)] by (auto simp: ch_yue_def ch_nian_def)
      then have "index_of ch_yue ((cy @ [ch_nian] @ cm) @ ch_yue # r) = Some (length (cy @ [ch_nian] @ cm))"
        by (rule index_of_append)
      then have ix: "index_of ch_yue before = Some (length cy + 1 + length cm)"
        using b by simp
      have fm: "fill_month before (render m) = Inr (cy @ [ch_nian] @ cm @ [ch_yue] @ d @ [ch_ri])"
        using no ix b m None y by (simp add: fill_month_def)
      have fy: "fill_year year (cy @ [ch_nian] @ cm @ [ch_yue] @ d @ [ch_ri])
                  = cy @ [ch_nian] @ cm @ [ch_yue] @ d @ [ch_ri]"
        by (simp add: fill_year_def)
      have ih: "workdays_loop year (cy @ [ch_nian] @ cm @ [ch_yue] @ d @ [ch_ri]) (map render ms)
                 = collect emit_spec (inherit_spec year st ms)"
        by (rule Cons.IH) (use Cons.prems wf Some p b in auto)
      show ?thesis using fm fy ih Some p m None y
        by (simp add: emit_spec_Some split: sum.splits)
    qed
  next
    case (Some ms')
    with Cons.prems m have dm: "list_all is_digit ms'" by simp
    define yy where "yy = (case y of None \<Rightarrow> year | Some ys \<Rightarrow> ys)"
    have dy: "list_all is_digit yy" using Cons.prems m by (auto simp: yy_def split: option.splits)
    have yes: "ch_yue \<in> set (render m)" using m Some by simp
    have fm: "fill_month before (render m) = Inr (render m)"
      using yes by (simp add: fill_month_def)
    have fy: "fill_year year (render m) = yy @ [ch_nian] @ ms' @ [ch_yue] @ d @ [ch_ri]"
      using m Some digits_no_nian [OF dm] digits_no_nian [OF wf(1)]
      by (auto simp: fill_year_def yy_def ch_nian_def ch_yue_def ch_ri_def split: option.splits)
    have ih: "workdays_loop year (yy @ [ch_nian] @ ms' @ [ch_yue] @ d @ [ch_ri]) (map render ms)
                 = collect emit_spec (inherit_spec year (Some (yy, ms')) ms)"
      by (rule Cons.IH) (use Cons.prems wf dy dm in auto)
    show ?thesis using fm fy ih m Some
      by (simp add: emit_spec_Some yy_def split: sum.splits)
  qed
qed

text \<open>
  C4, amended. In a run of work days, a day mention that states its month and no year
  gets the notice's year; a day mention without a month gets the month, and with it the
  year, of the last mention before it that stated a month, so the notice's year only when
  that mention stated none; a run that starts with a mention without a month is an error.
\<close>

theorem C4_workday_inheritance:
  assumes "list_all is_digit year" and "list_all wf_mention ms"
  shows "workdays_loop year [] (map render ms) = collect emit_spec (inherit_spec year None ms)"
  using assms by (rule workdays_loop_inherit) simp

theorem C4_workday_inheritance_witness:
  "list_all is_digit (U ''2020'') \<and> list_all wf_mention mentions_example
   \<and> inherit_spec (U ''2020'') None mentions_example
       = [Some (U ''2021'', U ''1'', U ''2''), Some (U ''2021'', U ''1'', U ''3''),
          Some (U ''2020'', U ''2'', U ''7''), Some (U ''2020'', U ''2'', U ''8'')]
   \<and> workdays_loop (U ''2020'') [] (map render mentions_example)
       = Inr [interval (U ''2021-01-02'') (U ''2021-01-02'') True,
              interval (U ''2021-01-03'') (U ''2021-01-03'') True,
              interval (U ''2020-02-07'') (U ''2020-02-07'') True,
              interval (U ''2020-02-08'') (U ''2020-02-08'') True]"
proof -
  have h1: "list_all is_digit (U ''2020'')" by code_simp
  have h2: "list_all wf_mention mentions_example" by code_simp
  have r: "inherit_spec (U ''2020'') None mentions_example
       = [Some (U ''2021'', U ''1'', U ''2''), Some (U ''2021'', U ''1'', U ''3''),
          Some (U ''2020'', U ''2'', U ''7''), Some (U ''2020'', U ''2'', U ''8'')]"
    by code_simp
  have e: "collect emit_spec (inherit_spec (U ''2020'') None mentions_example)
       = Inr [interval (U ''2021-01-02'') (U ''2021-01-02'') True,
              interval (U ''2021-01-03'') (U ''2021-01-03'') True,
              interval (U ''2020-02-07'') (U ''2020-02-07'') True,
              interval (U ''2020-02-08'') (U ''2020-02-08'') True]"
    by code_simp
  show ?thesis using h1 h2 r e C4_workday_inheritance [OF h1 h2] by simp
qed

section \<open>Properties of the cache\<close>

lemma read_all_holiday_dict:
  "cache_file w = Some txt \<Longrightarrow> json_loads txt = Inr (PDict d) \<Longrightarrow> read_all_holiday w = Inr (PDict d)"
  by (simp add: read_all_holiday_def)

lemma load_cached_hit:
  "cache_file w = Some txt \<Longrightarrow> json_loads txt = Inr (PDict d) \<Longrightarrow>
     load_cached w year = Inr (Some d, dict_get d year)"
  by (simp add: load_cached_def read_all_holiday_dict)

text \<open>A year that the cache file holds is answered from the file, and nothing else happens.\<close>

lemma get_holiday_data_hit:
  assumes "cache_file w = Some txt" "json_loads txt = Inr (PDict d)"
    "map_of d year = Some v" "v \<noteq> PNone"
  shows "get_holiday_data w year False = (Inr v, w)"
  using assms by (simp add: get_holiday_data_def load_cached_hit dict_get_def)

text \<open>
  With a cache file, even an empty one, the same first lookup stores the year and
  returns its lines.
\<close>

lemma refresh_with_cache_file:
  "fst (get_holiday_data (web notice_2020 (Some (U ''{}''))) (U ''2020'') False)
     = Inr (PList [interval (U ''2020-01-19'') (U ''2020-01-19'') True])
   \<and> cache_file (snd (get_holiday_data (web notice_2020 (Some (U ''{}''))) (U ''2020'') False))
     = Some (json_dumps (PDict [(U ''2020'', PList [interval (U ''2020-01-19'') (U ''2020-01-19'') True])]))"
  by code_simp

text \<open>
  C2. Without a cache file, the first lookup of 2020 finds the notice and parses it to
  the year 2020 and one interval, and then does not create the store: it raises
  \<open>UnboundLocalError\<close> and there is still no file.
\<close>

theorem C2_no_cache_file_raises:
  "search_notice_url (web notice_2020 None) (U ''2020'') = Inr (Some notice_url)
   \<and> parse_holiday_info (web notice_2020 None) (Some notice_url)
       = Inr (U ''2020'', [interval (U ''2020-01-19'') (U ''2020-01-19'') True])
   \<and> fst (get_holiday_data (web notice_2020 None) (U ''2020'') False) = Inl UnboundLocalError
   \<and> cache_file (snd (get_holiday_data (web notice_2020 None) (U ''2020'') False)) = None"
  by code_simp

theorem C2_no_cache_file_raises_witness:
  "fst (get_holiday_data (web notice_2020 None) (U ''2020'') False)
     \<noteq> Inr (PList [interval (U ''2020-01-19'') (U ''2020-01-19'') True])
   \<and> cache_file (snd (get_holiday_data (web notice_2020 None) (U ''2020'') False))
     \<noteq> Some (json_dumps (PDict [(U ''2020'', PList [interval (U ''2020-01-19'') (U ''2020-01-19'') True])]))"
  using C2_no_cache_file_raises by simp

text \<open>
  C7. When the year is looked up on the web (it is not in the cache, or the refresh is
  forced) and the notice parses to another year or to no interval, \<open>get_holiday_data\<close>
  raises and the cache file is what it was.
\<close>

theorem C7_bad_parse_not_cached:
  assumes "load_cached w year = Inr (all_holiday, holiday_data)"
    and "holiday_data = PNone \<or> force_refresh"
    and "search_notice_url w year = Inr url"
    and "parse_holiday_info w url = Inr (parsed_year, new_data)"
    and "parsed_year \<noteq> year \<or> new_data = []"
  shows "get_holiday_data w year force_refresh = (Inl (CanNotParse url), w)"
  using assms by (auto simp: get_holiday_data_def)

theorem C7_bad_parse_not_cached_witness:
  "load_cached (web notice_2021 (Some (U ''{}''))) (U ''2020'') = Inr (Some [], PNone)
   \<and> search_notice_url (web notice_2021 (Some (U ''{}''))) (U ''2020'') = Inr (Some notice_url)
   \<and> parse_holiday_info (web notice_2021 (Some (U ''{}''))) (Some notice_url)
       = Inr (U ''2021'', [interval (U ''2021-02-07'') (U ''2021-02-07'') True])
   \<and> U ''2021'' \<noteq> U ''2020''
   \<and> get_holiday_data (web notice_2021 (Some (U ''{}''))) (U ''2020'') False
       = (Inl (CanNotParse (Some notice_url)), web notice_2021 (Some (U ''{}'')))
   \<and> parse_holiday_info (web notice_empty (Some (U ''{}''))) (Some notice_url) = Inr (U ''2020'', [])
   \<and> get_holiday_data (web notice_empty (Some (U ''{}''))) (U ''2020'') True
       = (Inl (CanNotParse (Some notice_url)), web notice_empty (Some (U ''{}'')))"
proof -
  have a1: "load_cached (web notice_2021 (Some (U ''{}''))) (U ''2020'') = Inr (Some [], PNone)"
    by code_simp
  have a3: "search_notice_url (web notice_2021 (Some (U ''{}''))) (U ''2020'') = Inr (Some notice_url)"
    by code_simp
  have a4: "parse_holiday_info (web notice_2021 (Some (U ''{}''))) (Some notice_url)
              = Inr (U ''2021'', [interval (U ''2021-02-07'') (U ''2021-02-07'') True])"
    by code_simp
  have a5: "U ''2021'' \<noteq> U ''2020''" by code_simp
  have b1: "load_cached (web notice_empty (Some (U ''{}''))) (U ''2020'') = Inr (Some [], PNone)"
    by code_simp
  have b3: "search_notice_url (web notice_empty (Some (U ''{}''))) (U ''2020'') = Inr (Some notice_url)"
    by code_simp
  have b4: "parse_holiday_info (web notice_empty (Some (U ''{}''))) (Some notice_url) = Inr (U ''2020'', [])"
    by code_simp
  show ?thesis
    using a1 a3 a4 a5 b4
      C7_bad_parse_not_cached [OF a1 disjI1 a3 a4 disjI1, OF refl a5]
      C7_bad_parse_not_cached [OF b1 disjI2 b3 b4 disjI2, OF TrueI refl]
    by simp
qed

text \<open>
  C8. When the text of the cache file does not decode, or decodes to a value that is not
  a mapping, \<open>read_all_holiday\<close> returns the empty mapping and raises nothing.
\<close>

theorem C8_corrupt_cache_reads_empty:
  assumes "cache_file w = Some txt"
    and "json_loads txt = Inl e \<or> (json_loads txt = Inr v \<and> (\<forall>d. v \<noteq> PDict d))"
  shows "read_all_holiday w = Inr (PDict [])"
  using assms by (auto simp: read_all_holiday_def split: pyval.splits)

theorem C8_corrupt_cache_reads_empty_witness:
  "cache_file (web notice_2020 (Some (U ''{''))) = Some (U ''{'')
   \<and> json_loads (U ''{'') = Inl JSONDecodeError
   \<and> read_all_holiday (web notice_2020 (Some (U ''{''))) = Inr (PDict [])
   \<and> json_loads (U ''[1, 2]'') = Inr (PList [PInt 1, PInt 2])
   \<and> read_all_holiday (web notice_2020 (Some (U ''[1, 2]''))) = Inr (PDict [])"
proof -
  have c1: "cache_file (web notice_2020 (Some (U ''{''))) = Some (U ''{'')"
    by (simp add: web_def)
  have c2: "cache_file (web notice_2020 (Some (U ''[1, 2]''))) = Some (U ''[1, 2]'')"
    by (simp add: web_def)
  have l1: "json_loads (U ''{'') = Inl JSONDecodeError" by code_simp
  have l2: "json_loads (U ''[1, 2]'') = Inr (PList [PInt 1, PInt 2])" by code_simp
  have n2: "\<forall>d. PList [PInt 1, PInt 2] \<noteq> PDict d" by simp
  show ?thesis
    using c1 l1 l2
      C8_corrupt_cache_reads_empty [OF c1 disjI1, OF l1]
      C8_corrupt_cache_reads_empty [OF c2 disjI2, OF conjI, OF l2 n2]
    by simp
qed

section \<open>Properties of the classifier\<close>

lemma scan_lines_line:
  "strptime re_format_iso s = Inr from_dt \<Longrightarrow> strptime re_format_iso e = Inr to_dt \<Longrightarrow>
     scan_lines date_time (PList [PStr s, PStr e, work] # rest) =
       (if dt_le from_dt date_time \<and> dt_le date_time to_dt then Inr (py_not work)
        else scan_lines date_time rest)"
  by (simp add: unpack3_def strptime_iso_def)

lemma scan_lines_tuple:
  "strptime re_format_iso s = Inr from_dt \<Longrightarrow> strptime re_format_iso e = Inr to_dt \<Longrightarrow>
     scan_lines date_time (PTuple [PStr s, PStr e, work] # rest) =
       (if dt_le from_dt date_time \<and> dt_le date_time to_dt then Inr (py_not work)
        else scan_lines date_time rest)"
  by (simp add: unpack3_def strptime_iso_def)

lemma scan_lines_miss:
  assumes "miss date_time l"
  shows "scan_lines date_time (l # rest) = scan_lines date_time rest"
proof -
  from assms obtain s e work where i: "as_interval l = Some (s, e, work)"
    by (cases "as_interval l") (auto simp: miss_def)
  then have l: "l = PList [PStr s, PStr e, work] \<or> l = PTuple [PStr s, PStr e, work]"
    by (rule as_interval.elims) simp_all
  from assms i obtain from_dt where f: "strptime re_format_iso s = Inr from_dt"
    by (cases "strptime re_format_iso s") (simp_all add: miss_def)
  from assms i f obtain to_dt where t: "strptime re_format_iso e = Inr to_dt"
    by (cases "strptime re_format_iso e") (simp_all add: miss_def)
  from assms i f t have n: "\<not> (dt_le from_dt date_time \<and> dt_le date_time to_dt)"
    by (simp add: miss_def)
  from l show ?thesis
  proof
    assume "l = PList [PStr s, PStr e, work]"
    then show ?thesis using f t n by (simp only: scan_lines_line if_False)
  next
    assume "l = PTuple [PStr s, PStr e, work]"
    then show ?thesis using f t n by (simp only: scan_lines_tuple if_False)
  qed
qed

lemma scan_lines_skip:
  "list_all (miss date_time) pre \<Longrightarrow> scan_lines date_time (pre @ rest) = scan_lines date_time rest"
proof (induction pre)
  case Nil
  then show ?case by simp
next
  case (Cons l pre)
  then have "miss date_time l" and "list_all (miss date_time) pre" by simp_all
  then show ?case using Cons.IH scan_lines_miss [of date_time l "pre @ rest"]
    by (simp only: append_Cons)
qed

lemma scan_lines_hit:
  assumes "strptime re_format_iso s = Inr from_dt" "strptime re_format_iso e = Inr to_dt"
    "dt_le from_dt date_time" "dt_le date_time to_dt"
  shows "scan_lines date_time (PList [PStr s, PStr e, work] # post) = Inr (py_not work)"
  using assms by (simp add: unpack3_def strptime_iso_def)

lemma weekday_range: "0 \<le> weekday d \<and> weekday d \<le> 6"
  by (simp add: weekday_def)

text \<open>The calendar on known days: 19 January 2020 was a Sunday, 3 October 2020 a Saturday.\<close>

lemma weekday_known:
  "weekday (day 2020 1 19) = 6 \<and> weekday (day 2020 10 3) = 5 \<and> weekday (day 2024 2 29) = 3"
  by code_simp

text \<open>
  C5. For a date whose year is in the cache, when the lines before some line are
  intervals that do not hold the date and that line is an interval that holds it,
  \<open>is_holiday\<close> returns the negation of that line's work flag, whatever the lines after
  it are.
\<close>

theorem C5_first_interval_wins:
  assumes "cache_file w = Some txt" and "json_loads txt = Inr (PDict d)"
    and "to_datetime a = Inr date_time"
    and "map_of d (strftime_Y date_time)
           = Some (PList (pre @ PList [PStr s, PStr e, PBool work] # post))"
    and "list_all (miss date_time) pre"
    and "strptime re_format_iso s = Inr from_dt" and "strptime re_format_iso e = Inr to_dt"
    and "dt_le from_dt date_time" and "dt_le date_time to_dt"
  shows "is_holiday w a = (Inr (\<not> work), w)"
proof -
  have g: "get_holiday_data w (strftime_Y date_time) False
             = (Inr (PList (pre @ PList [PStr s, PStr e, PBool work] # post)), w)"
    using assms(1,2,4) by (rule get_holiday_data_hit) simp
  have "scan_lines date_time (pre @ PList [PStr s, PStr e, PBool work] # post)
          = Inr (py_not (PBool work))"
    using assms(5-9) by (simp only: scan_lines_skip scan_lines_hit)
  then show ?thesis using g assms(3) by (simp add: is_holiday_def py_not_def)
qed

theorem C5_first_interval_wins_witness:
  "cache_file (web notice_2020 (Some cache_2020)) = Some cache_2020
   \<and> json_loads cache_2020 = Inr (PDict store_2020)
   \<and> to_datetime (AStr (U ''2020-10-03'')) = Inr (day 2020 10 3)
   \<and> map_of store_2020 (strftime_Y (day 2020 10 3))
       = Some (PList ([cached_line (U ''2020-01-19'') (U ''2020-01-19'') True]
            @ PList [PStr (U ''2020-10-01''), PStr (U ''2020-10-08''), PBool False]
            # [cached_line (U ''2020-10-03'') (U ''2020-10-03'') True]))
   \<and> list_all (miss (day 2020 10 3)) [cached_line (U ''2020-01-19'') (U ''2020-01-19'') True]
   \<and> strptime re_format_iso (U ''2020-10-01'') = Inr (day 2020 10 1)
   \<and> strptime re_format_iso (U ''2020-10-08'') = Inr (day 2020 10 8)
   \<and> dt_le (day 2020 10 1) (day 2020 10 3) \<and> dt_le (day 2020 10 3) (day 2020 10 8)
   \<and> is_holiday (web notice_2020 (Some cache_2020)) (AStr (U ''2020-10-03''))
       = (Inr True, web notice_2020 (Some cache_2020))"
proof -
  have h1: "cache_file (web notice_2020 (Some cache_2020)) = Some cache_2020"
    by (simp add: web_def)
  have h2: "json_loads cache_2020 = Inr (PDict store_2020)" by code_simp
  have h3: "to_datetime (AStr (U ''2020-10-03'')) = Inr (day 2020 10 3)" by code_simp
  have h4: "map_of store_2020 (strftime_Y (day 2020 10 3))
       = Some (PList ([cached_line (U ''2020-01-19'') (U ''2020-01-19'') True]
            @ PList [PStr (U ''2020-10-01''), PStr (U ''2020-10-08''), PBool False]
            # [cached_line (U ''2020-10-03'') (U ''2020-10-03'') True]))"
    by code_simp
  have h5: "list_all (miss (day 2020 10 3)) [cached_line (U ''2020-01-19'') (U ''2020-01-19'') True]"
    by code_simp
  have h6: "strptime re_format_iso (U ''2020-10-01'') = Inr (day 2020 10 1)" by code_simp
  have h7: "strptime re_format_iso (U ''2020-10-08'') = Inr (day 2020 10 8)" by code_simp
  have h8: "dt_le (day 2020 10 1) (day 2020 10 3)" by code_simp
  have h9: "dt_le (day 2020 10 3) (day 2020 10 8)" by code_simp
  have "is_holiday (web notice_2020 (Some cache_2020)) (AStr (U ''2020-10-03''))
       = (Inr (\<not> False), web notice_2020 (Some cache_2020))"
    by (rule C5_first_interval_wins [OF h1 h2 h3 h4 h5 h6 h7 h8 h9])
  then have c: "is_holiday (web notice_2020 (Some cache_2020)) (AStr (U ''2020-10-03''))
       = (Inr True, web notice_2020 (Some cache_2020))"
    by simp
  from h1 h2 h3 h4 h5 h6 h7 h8 h9 c show ?thesis by blast
qed



text \<open>
  C10. When the cache file maps a year to the empty list, \<open>get_holiday_data\<close> returns
  the empty list for that year and asks the web nothing, and \<open>is_holiday\<close> for a date
  of that year fails its assertion.
\<close>

theorem C10_empty_year_entry:
  assumes "cache_file w = Some txt" and "json_loads txt = Inr (PDict d)"
    and "map_of d year = Some (PList [])"
    and "to_datetime a = Inr date_time" and "strftime_Y date_time = year"
  shows "get_holiday_data w year False = (Inr (PList []), w)
         \<and> is_holiday w a = (Inl AssertionError, w)"
proof -
  have g: "get_holiday_data w year False = (Inr (PList []), w)"
    using assms(1,2,3) by (rule get_holiday_data_hit) simp
  then show ?thesis using assms(4,5) by (simp add: is_holiday_def)
qed

theorem C10_empty_year_entry_witness:
  "cache_file (web notice_2021 (Some cache_2020)) = Some cache_2020
   \<and> json_loads cache_2020 = Inr (PDict store_2020)
   \<and> map_of store_2020 (U ''2021'') = Some (PList [])
   \<and> to_datetime (AStr (U ''2021-05-01'')) = Inr (day 2021 5 1)
   \<and> strftime_Y (day 2021 5 1) = U ''2021''
   \<and> weekday (day 2021 5 1) = 5
   \<and> get_holiday_data (web notice_2021 (Some cache_2020)) (U ''2021'') False
       = (Inr (PList []), web notice_2021 (Some cache_2020))
   \<and> is_holiday (web notice_2021 (Some cache_2020)) (AStr (U ''2021-05-01''))
       = (Inl AssertionError, web notice_2021 (Some cache_2020))"
proof -
  have h1: "cache_file (web notice_2021 (Some cache_2020)) = Some cache_2020"
    by (simp add: web_def)
  have h2: "json_loads cache_2020 = Inr (PDict store_2020)" by code_simp
  have h3: "map_of store_2020 (U ''2021'') = Some (PList [])" by code_simp
  have h4: "to_datetime (AStr (U ''2021-05-01'')) = Inr (day 2021 5 1)" by code_simp
  have h5: "strftime_Y (day 2021 5 1) = U ''2021''" by code_simp
  have wd: "weekday (day 2021 5 1) = 5" by code_simp
  show ?thesis
    using h1 h2 h3 h4 h5 wd C10_empty_year_entry [OF h1 h2 h3 h4 h5]
    by simp
qed

section \<open>The round trip of the cache file\<close>

lemma esc_plain_char: "plain_char c \<Longrightarrow> esc_char c = [c]"
  by (simp add: plain_char_def esc_char_def)

lemma esc_plain: "plain s \<Longrightarrow> concat (map esc_char s) = s"
  by (induction s) (simp_all add: plain_def esc_plain_char)

lemma encode_str_plain: "plain s \<Longrightarrow> encode_str s = 34 # s @ [34]"
  by (simp add: encode_str_def esc_plain)

lemma scanstring_plain: "plain s \<Longrightarrow> scanstring (s @ 34 # rest) = Some (s, rest)"
proof (induction s)
  case Nil
  show ?case by (subst scanstring.simps) simp
next
  case (Cons c s)
  then have c: "plain_char c" and s: "plain s" by (simp_all add: plain_def)
  from c have "c \<noteq> 34" "c \<noteq> 92" "\<not> c < 32" by (simp_all add: plain_char_def)
  then show ?case using Cons.IH [OF s]
    by (subst scanstring.simps) simp
qed

lemma skip_ws_nonws: "\<not> is_ws c \<Longrightarrow> skip_ws (c # r) = c # r"
  by (simp add: skip_ws_def)

lemma skip_ws_newline_indent: "skip_ws (newline_indent k @ r) = skip_ws r"
proof -
  have "dropWhile is_ws (replicate n 32 @ r) = dropWhile is_ws r" for n
    by (induction n) (simp_all add: is_ws_def)
  then show ?thesis by (simp add: skip_ws_def newline_indent_def is_ws_def)
qed

lemma scalar_text: "scalar v = Some t \<Longrightarrow> iterencode level v = [t]"
  by (cases v) auto

lemma concat_iterencode_list:
  "concat (iterencode_list level buf (v # vs))
     = buf @ concat (iterencode level v) @ concat (iterencode_list level (44 # newline_indent level) vs)"
  by (cases "scalar v") (simp_all add: scalar_text)

lemma concat_iterencode_dict:
  "concat (iterencode_dict level first (kv # kvs))
     = (if first then [] else 44 # newline_indent level) @ encode_str (fst kv) @ [58, 32]
       @ concat (iterencode level (snd kv)) @ concat (iterencode_dict level False kvs)"
  by (cases "scalar (snd kv)") (simp_all add: scalar_text)


lemma iterencode_list_Nil: "iterencode_list level buf [] = []"
  by simp

lemma iterencode_dict_Nil: "iterencode_dict level first [] = []"
  by simp

lemma text_list_Nil: "concat (iterencode level (PList [])) = [91, 93]"
  by (simp add: U_def)

lemma text_dict_Nil: "concat (iterencode level (PDict [])) = [123, 125]"
  by (simp add: U_def)

lemma text_list_Cons:
  "concat (iterencode level (PList (v # vs)))
     = 91 # newline_indent (Suc level) @ concat (iterencode (Suc level) v)
         @ concat (iterencode_list (Suc level) (44 # newline_indent (Suc level)) vs)
         @ newline_indent level @ [93]"
  by (simp del: iterencode_list.simps add: concat_iterencode_list)

lemma text_dict_Cons:
  "concat (iterencode level (PDict (kv # kvs)))
     = 123 # newline_indent (Suc level) @ encode_str (fst kv) @ [58, 32]
         @ concat (iterencode (Suc level) (snd kv))
         @ concat (iterencode_dict (Suc level) False kvs)
         @ newline_indent level @ [125]"
  by (simp del: iterencode_dict.simps add: concat_iterencode_dict)

declare iterencode_list.simps [simp del] iterencode_dict.simps [simp del]
declare iterencode.simps(1,2) [simp del]

lemma first_char:
  "good v \<Longrightarrow> \<exists>c t. concat (iterencode level v) = c # t \<and> \<not> is_ws c \<and> c \<noteq> 93 \<and> c \<noteq> 125"
proof (cases v)
  case (PList vs)
  then show ?thesis
    by (cases vs) (simp_all add: is_ws_def text_list_Nil text_list_Cons)
next
  case (PDict kvs)
  then show ?thesis
    by (cases kvs) (simp_all add: is_ws_def text_dict_Nil text_dict_Cons)
next
  case (PStr s)
  then show ?thesis by (simp add: encode_str_def is_ws_def)
qed (simp_all add: U_def is_ws_def)

lemma skip_ws_text:
  assumes "good v"
  shows "skip_ws (newline_indent k @ concat (iterencode level v) @ r) = concat (iterencode level v) @ r"
proof -
  from first_char [OF assms] obtain c t where "concat (iterencode level v) = c # t" "\<not> is_ws c"
    by blast
  then show ?thesis by (simp add: skip_ws_newline_indent skip_ws_nonws)
qed

lemma scan_array_text:
  assumes ih: "\<And>v level rest n. v \<in> set (v0 # vs) \<Longrightarrow> length (concat (iterencode level v)) \<le> n \<Longrightarrow>
                 scan_once n (concat (iterencode level v) @ rest) = Some (v, rest)"
    and g: "list_all good (v0 # vs)"
    and n: "length (concat (iterencode level v0))
              + length (concat (iterencode_list level (44 # newline_indent level) vs)) + 1 \<le> n"
  shows "scan_array n (concat (iterencode level v0)
            @ concat (iterencode_list level (44 # newline_indent level) vs)
            @ newline_indent k @ 93 # rest) = Some (v0 # vs, rest)"
  using ih g n
proof (induction vs arbitrary: v0 n)
  case Nil
  from Nil.prems(3) obtain m where m: "n = Suc m" by (cases n) auto
  with Nil.prems(3) have "length (concat (iterencode level v0)) \<le> m" by simp
  then have "scan_once m (concat (iterencode level v0) @ newline_indent k @ 93 # rest)
               = Some (v0, newline_indent k @ 93 # rest)"
    using Nil.prems(1) by simp
  then show ?case using m
    by (simp add: iterencode_list_Nil skip_ws_newline_indent skip_ws_nonws is_ws_def)
next
  case (Cons v1 vs)
  from Cons.prems(3) obtain m where m: "n = Suc m" by (cases n) auto
  let ?sep = "44 # newline_indent level"
  let ?tail = "concat (iterencode level v1) @ concat (iterencode_list level ?sep vs)
                 @ newline_indent k @ 93 # rest"
  have l0: "length (concat (iterencode level v0)) \<le> m"
    using Cons.prems(3) m by simp
  have s0: "scan_once m (concat (iterencode level v0) @ ?sep @ ?tail) = Some (v0, ?sep @ ?tail)"
    using Cons.prems(1) l0 by simp
  have g1: "good v1" using Cons.prems(2) by simp
  have sk: "skip_ws (newline_indent level @ ?tail) = ?tail"
    using skip_ws_text [OF g1] by simp
  have l1: "length (concat (iterencode level v1))
              + length (concat (iterencode_list level ?sep vs)) + 1 \<le> m"
    using Cons.prems(3) m by (simp add: concat_iterencode_list)
  have rec: "scan_array m ?tail = Some (v1 # vs, rest)"
    by (rule Cons.IH) (use Cons.prems l1 in auto)
  show ?case using m s0 sk rec
    by (simp add: concat_iterencode_list skip_ws_nonws is_ws_def)
qed

lemma scan_object_text:
  assumes ih: "\<And>v level rest n. v \<in> snd ` set (kv0 # kvs) \<Longrightarrow> length (concat (iterencode level v)) \<le> n \<Longrightarrow>
                 scan_once n (concat (iterencode level v) @ rest) = Some (v, rest)"
    and g: "list_all (\<lambda>kv. plain (fst kv) \<and> good (snd kv)) (kv0 # kvs)"
    and n: "length (concat (iterencode level (snd kv0)))
              + length (concat (iterencode_dict level False kvs)) + 1 \<le> n"
  shows "scan_object n (encode_str (fst kv0) @ [58, 32] @ concat (iterencode level (snd kv0))
            @ concat (iterencode_dict level False kvs)
            @ newline_indent k @ 125 # rest) = Some (kv0 # kvs, rest)"
  using ih g n
proof (induction kvs arbitrary: kv0 n)
  case Nil
  from Nil.prems(3) obtain m where m: "n = Suc m" by (cases n) auto
  obtain k0 v0 where kv0: "kv0 = (k0, v0)" by (cases kv0)
  have p: "plain k0" and g0: "good v0" using Nil.prems(2) kv0 by simp_all
  have "length (concat (iterencode level v0)) \<le> m" using Nil.prems(3) m kv0 by simp
  then have so: "scan_once m (concat (iterencode level v0) @ newline_indent k @ 125 # rest)
               = Some (v0, newline_indent k @ 125 # rest)"
    using Nil.prems(1) kv0 by simp
  have sk: "skip_ws (32 # concat (iterencode level v0) @ newline_indent k @ 125 # rest)
              = concat (iterencode level v0) @ newline_indent k @ 125 # rest"
    using skip_ws_text [OF g0, of 0 level] by (simp add: newline_indent_def skip_ws_def is_ws_def)
  show ?case using m kv0 so sk scanstring_plain [OF p]
    by (simp add: iterencode_dict_Nil encode_str_plain [OF p] skip_ws_newline_indent skip_ws_nonws is_ws_def)
next
  case (Cons kv1 kvs)
  from Cons.prems(3) obtain m where m: "n = Suc m" by (cases n) auto
  obtain k0 v0 where kv0: "kv0 = (k0, v0)" by (cases kv0)
  obtain k1 v1 where kv1: "kv1 = (k1, v1)" by (cases kv1)
  have p: "plain k0" and g0: "good v0" and p1: "plain k1" and g1: "good v1"
    using Cons.prems(2) kv0 kv1 by simp_all
  let ?sep = "44 # newline_indent level"
  let ?tail = "encode_str k1 @ [58, 32] @ concat (iterencode level v1)
                 @ concat (iterencode_dict level False kvs) @ newline_indent k @ 125 # rest"
  have l0: "length (concat (iterencode level v0)) \<le> m"
    using Cons.prems(3) m kv0 by simp
  have so: "scan_once m (concat (iterencode level v0) @ ?sep @ ?tail) = Some (v0, ?sep @ ?tail)"
    using Cons.prems(1) l0 kv0 by simp
  have sk0: "skip_ws (32 # concat (iterencode level v0) @ ?sep @ ?tail)
              = concat (iterencode level v0) @ ?sep @ ?tail"
    using skip_ws_text [OF g0, of 0 level] by (simp add: newline_indent_def skip_ws_def is_ws_def)
  have sk1: "skip_ws (newline_indent level @ ?tail) = ?tail"
    by (simp add: skip_ws_newline_indent encode_str_plain [OF p1] skip_ws_nonws is_ws_def)
  have l1: "length (concat (iterencode level (snd kv1)))
              + length (concat (iterencode_dict level False kvs)) + 1 \<le> m"
    using Cons.prems(3) m kv1 by (simp add: concat_iterencode_dict)
  have rec: "scan_object m (encode_str (fst kv1) @ [58, 32] @ concat (iterencode level (snd kv1))
            @ concat (iterencode_dict level False kvs)
            @ newline_indent k @ 125 # rest) = Some (kv1 # kvs, rest)"
    by (rule Cons.IH) (use Cons.prems l1 in auto)
  show ?case using m kv0 kv1 so sk0 sk1 rec scanstring_plain [OF p]
    by (simp add: concat_iterencode_dict encode_str_plain [OF p] skip_ws_nonws is_ws_def)
qed


lemma dict_set_fresh: "k \<notin> fst ` set d \<Longrightarrow> dict_set d k v = d @ [(k, v)]"
  by (induction d) auto

lemma foldl_dict_set:
  "distinct (map fst (acc @ kvs)) \<Longrightarrow>
     foldl (\<lambda>d kv. dict_set d (fst kv) (snd kv)) acc kvs = acc @ kvs"
proof (induction kvs arbitrary: acc)
  case Nil
  then show ?case by simp
next
  case (Cons kv kvs)
  then have "fst kv \<notin> fst ` set acc" by auto
  then have "dict_set acc (fst kv) (snd kv) = acc @ [kv]"
    by (simp add: dict_set_fresh)
  then show ?case using Cons.IH [of "acc @ [kv]"] Cons.prems by simp
qed

lemma dict_of_pairs_distinct: "distinct (map fst kvs) \<Longrightarrow> dict_of_pairs kvs = kvs"
  using foldl_dict_set [of "[]" kvs] by (simp add: dict_of_pairs_def)

lemma scan_once_text:
  "good v \<Longrightarrow> length (concat (iterencode level v)) \<le> n \<Longrightarrow>
     scan_once n (concat (iterencode level v) @ rest) = Some (v, rest)"
proof (induction v arbitrary: level rest n)
  case PNone
  then obtain m where "n = Suc m" by (cases n) (auto simp: U_def)
  then show ?case by (simp add: U_def scan_const_def starts_with_def)
next
  case (PBool b)
  then obtain m where "n = Suc m" by (cases n; cases b) (auto simp: U_def)
  then show ?case by (cases b) (simp_all add: U_def scan_const_def starts_with_def)
next
  case (PInt i)
  then show ?case by simp
next
  case (PFloat x)
  then show ?case by simp
next
  case (PTuple vs)
  then show ?case by simp
next
  case (PStr s)
  then have p: "plain s" by simp
  from PStr obtain m where "n = Suc m" by (cases n) (auto simp: encode_str_def)
  then show ?case using scanstring_plain [OF p]
    by (simp add: encode_str_plain [OF p])
next
  case (PList vs)
  show ?case
  proof (cases vs)
    case Nil
    with PList.prems obtain m where "n = Suc m" by (cases n) (auto simp: text_list_Nil)
    then show ?thesis using Nil by (simp add: text_list_Nil skip_ws_nonws is_ws_def)
  next
    case (Cons v0 vs')
    let ?items = "concat (iterencode_list (Suc level) (44 # newline_indent (Suc level)) vs')"
    let ?tail = "?items @ newline_indent level @ 93 # rest"
    have enc: "concat (iterencode level (PList vs))
                 = 91 # newline_indent (Suc level) @ concat (iterencode (Suc level) v0) @ ?items
                     @ newline_indent level @ [93]"
      using Cons by (simp add: text_list_Cons)
    with PList.prems(2) obtain m where m: "n = Suc m" by (cases n) auto
    have g: "list_all good (v0 # vs')" using PList.prems(1) Cons by simp
    then have g0: "good v0" by simp
    from first_char [OF g0] obtain c t where
      ct: "concat (iterencode (Suc level) v0) = c # t" "\<not> is_ws c" "c \<noteq> 93" by blast
    have sk: "skip_ws (newline_indent (Suc level) @ concat (iterencode (Suc level) v0) @ ?tail)
                = c # t @ ?tail"
      using skip_ws_text [OF g0, of "Suc level" "Suc level" "?tail"] ct by simp
    have len: "length (concat (iterencode (Suc level) v0)) + length ?items + 1 \<le> m"
      using PList.prems(2) enc m by simp
    have "scan_array m (concat (iterencode (Suc level) v0) @ ?items @ newline_indent level @ 93 # rest)
            = Some (v0 # vs', rest)"
    proof (rule scan_array_text)
      fix v lv r k
      assume "v \<in> set (v0 # vs')" and "length (concat (iterencode lv v)) \<le> k"
      moreover from this g have "good v" by (auto simp: list_all_iff)
      ultimately show "scan_once k (concat (iterencode lv v) @ r) = Some (v, r)"
        using PList.IH [of v lv k r] Cons by simp
    qed (use g len in auto)
    then have "scan_array m (c # t @ ?tail) = Some (v0 # vs', rest)"
      using ct by simp
    then show ?thesis using m enc sk ct Cons by simp
  qed
next
  case (PDict kvs)
  show ?case
  proof (cases kvs)
    case Nil
    with PDict.prems obtain m where "n = Suc m" by (cases n) (auto simp: text_dict_Nil)
    then show ?thesis using Nil by (simp add: text_dict_Nil skip_ws_nonws is_ws_def)
  next
    case (Cons kv0 kvs')
    let ?items = "concat (iterencode_dict (Suc level) False kvs')"
    let ?body = "encode_str (fst kv0) @ [58, 32] @ concat (iterencode (Suc level) (snd kv0)) @ ?items
                   @ newline_indent level @ 125 # rest"
    have enc: "concat (iterencode level (PDict kvs)) @ rest
                 = 123 # newline_indent (Suc level) @ ?body"
      using Cons by (simp add: text_dict_Cons)
    have lenc: "length (concat (iterencode level (PDict kvs)))
                 = 1 + length (newline_indent (Suc level)) + length (encode_str (fst kv0)) + 2
                     + length (concat (iterencode (Suc level) (snd kv0))) + length ?items
                     + length (newline_indent level) + 1"
      using Cons by (simp add: text_dict_Cons)
    with PDict.prems(2) obtain m where m: "n = Suc m" by (cases n) auto
    have d: "distinct (map fst kvs)"
      and g: "list_all (\<lambda>kv. plain (fst kv) \<and> good (snd kv)) (kv0 # kvs')"
      using PDict.prems(1) Cons by simp_all
    then have p0: "plain (fst kv0)" by simp
    have sk: "skip_ws (newline_indent (Suc level) @ ?body) = 34 # fst kv0 @ 34 # [58, 32]
                @ concat (iterencode (Suc level) (snd kv0)) @ ?items @ newline_indent level @ 125 # rest"
      by (simp add: skip_ws_newline_indent encode_str_plain [OF p0] skip_ws_nonws is_ws_def)
    have len: "length (concat (iterencode (Suc level) (snd kv0))) + length ?items + 1 \<le> m"
      using PDict.prems(2) lenc m by simp
    have "scan_object m ?body = Some (kv0 # kvs', rest)"
    proof (rule scan_object_text)
      fix v lv r k
      assume "v \<in> snd ` set (kv0 # kvs')" and l: "length (concat (iterencode lv v)) \<le> k"
      then obtain kv where kv: "kv \<in> set kvs" "v = snd kv" unfolding Cons by blast
      then have "good v" using g Cons by (auto simp: list_all_iff)
      moreover have "v \<in> Basic_BNFs.snds kv" using kv(2) by (cases kv) simp
      ultimately show "scan_once k (concat (iterencode lv v) @ r) = Some (v, r)"
        using PDict.IH [of kv v lv k r] kv l by simp
    qed (use g len in auto)
    then have "scan_object m (34 # fst kv0 @ 34 # [58, 32]
                @ concat (iterencode (Suc level) (snd kv0)) @ ?items @ newline_indent level @ 125 # rest)
                 = Some (kv0 # kvs', rest)"
      by (simp add: encode_str_plain [OF p0])
    then show ?thesis using m enc sk Cons dict_of_pairs_distinct [OF d]
      by simp
  qed
qed

lemma json_loads_dumps: "good v \<Longrightarrow> json_loads (json_dumps v) = Inr v"
proof -
  assume g: "good v"
  from first_char [OF g] obtain c t where ct: "concat (iterencode 0 v) = c # t" "\<not> is_ws c"
    by blast
  then have sk: "skip_ws (concat (iterencode 0 v)) = concat (iterencode 0 v)"
    by (simp add: skip_ws_nonws)
  have "scan_once (2 * length (concat (iterencode 0 v)) + 2) (concat (iterencode 0 v) @ [])
          = Some (v, [])"
    by (rule scan_once_text [OF g]) simp
  then show ?thesis using sk by (simp add: json_loads_def json_dumps_def skip_ws_def)
qed


lemma encodable_append: "encodable (a @ b) = (encodable a \<and> encodable b)"
  by (simp add: encodable_def)

lemma encodable_newline_indent: "encodable (newline_indent k)"
  by (simp add: encodable_def newline_indent_def list_all_iff)

lemma encodable_sep: "encodable (c # newline_indent k) = (c < 55296 \<or> 57343 < c)"
  using encodable_newline_indent [of k] by (simp add: encodable_def)

lemma encodable_encode_str: "plain s \<Longrightarrow> encodable (encode_str s)"
  by (auto simp: encode_str_plain encodable_def plain_def plain_char_def list_all_iff)

lemma chunks_list:
  assumes "\<And>v lv. v \<in> set vs \<Longrightarrow> list_all encodable (iterencode lv v)" and "encodable buf"
  shows "list_all encodable (iterencode_list level buf vs)"
  using assms
proof (induction vs arbitrary: buf)
  case Nil
  then show ?case by (simp add: iterencode_list_Nil)
next
  case (Cons v vs)
  have v: "list_all encodable (iterencode level v)" using Cons.prems(1) by simp
  have r: "list_all encodable (iterencode_list level (44 # newline_indent level) vs)"
    by (rule Cons.IH) (use Cons.prems(1) in \<open>simp_all add: encodable_sep\<close>)
  show ?case
  proof (cases "scalar v")
    case None
    then show ?thesis using v r Cons.prems(2) by (simp add: iterencode_list.simps)
  next
    case (Some t)
    then have "encodable t" using v scalar_text [OF Some, of level] by simp
    then show ?thesis using Some r Cons.prems(2)
      by (simp add: iterencode_list.simps encodable_append)
  qed
qed

lemma chunks_dict:
  assumes "\<And>v lv. v \<in> snd ` set kvs \<Longrightarrow> list_all encodable (iterencode lv v)"
    and "list_all (\<lambda>kv. plain (fst kv)) kvs"
  shows "list_all encodable (iterencode_dict level first kvs)"
  using assms
proof (induction kvs arbitrary: first)
  case Nil
  then show ?case by (simp add: iterencode_dict_Nil)
next
  case (Cons kv kvs)
  have v: "list_all encodable (iterencode level (snd kv))" using Cons.prems(1) by simp
  have k: "encodable (encode_str (fst kv))" using Cons.prems(2) by (simp add: encodable_encode_str)
  have r: "list_all encodable (iterencode_dict level False kvs)"
    by (rule Cons.IH) (use Cons.prems in simp_all)
  have s: "encodable [58, 32]" by (simp add: encodable_def)
  show ?case
  proof (cases "scalar (snd kv)")
    case None
    then show ?thesis using v r k s by (simp add: iterencode_dict.simps encodable_sep)
  next
    case (Some t)
    then have "encodable t" using v scalar_text [OF Some, of level] by simp
    then show ?thesis using Some r k s
      by (simp add: iterencode_dict.simps encodable_sep)
  qed
qed

lemma chunks_encodable: "good v \<Longrightarrow> list_all encodable (iterencode level v)"
proof (induction v arbitrary: level)
  case (PStr s)
  then show ?case by (simp add: encodable_encode_str)
next
  case (PList vs)
  have "list_all encodable (iterencode_list (Suc level) (91 # newline_indent (Suc level)) vs)"
  proof (rule chunks_list)
    fix v lv assume "v \<in> set vs"
    then show "list_all encodable (iterencode lv v)"
      using PList.IH [of v lv] PList.prems by (auto simp: list_all_iff)
  qed (simp add: encodable_sep)
  moreover have "encodable (U ''[]'')" and "encodable [93]"
    by (simp_all add: encodable_def U_def)
  ultimately show ?case
    by (simp add: iterencode.simps(1) encodable_newline_indent)
next
  case (PDict kvs)
  have "list_all encodable (iterencode_dict (Suc level) True kvs)"
  proof (rule chunks_dict)
    fix v lv assume "v \<in> snd ` set kvs"
    then obtain kv where kv: "kv \<in> set kvs" "v = snd kv" by blast
    then have "good v" using PDict.prems by (auto simp: list_all_iff)
    moreover have "v \<in> Basic_BNFs.snds kv" using kv(2) by (cases kv) simp
    ultimately show "list_all encodable (iterencode lv v)"
      using PDict.IH [of kv v lv] kv by simp
  next
    show "list_all (\<lambda>kv. plain (fst kv)) kvs" using PDict.prems by (auto simp: list_all_iff)
  qed
  moreover have "encodable (U ''{}'')" and "encodable [123]" and "encodable [125]"
    by (simp_all add: encodable_def U_def)
  ultimately show ?case
    by (simp add: iterencode.simps(2) encodable_newline_indent)
qed (simp_all add: U_def encodable_def)

lemma save_all_holiday_good:
  assumes "good v"
  shows "save_all_holiday w v = (Inr (), w\<lparr>cache_file := Some (json_dumps v)\<rparr>)"
proof -
  have "\<forall>x \<in> set (iterencode 0 v). encodable x"
    using chunks_encodable [OF assms, of 0] by (simp add: list_all_iff)
  then have t: "takeWhile encodable (iterencode 0 v) = iterencode 0 v"
    by (rule takeWhile_eq_all_conv [THEN iffD2])
  show ?thesis unfolding save_all_holiday_def Let_def t json_dumps_def by simp
qed

lemma scalar_listify: "scalar (listify v) = scalar v"
  by (cases v) simp_all

lemma listify_scalar: "scalar v = Some t \<Longrightarrow> listify v = v"
  by (cases v) simp_all

lemma iterencode_list_listify:
  assumes "\<And>v lv. v \<in> set vs \<Longrightarrow> iterencode lv (listify v) = iterencode lv v"
  shows "iterencode_list level buf (map listify vs) = iterencode_list level buf vs"
  using assms
proof (induction vs arbitrary: buf)
  case Nil
  then show ?case by simp
next
  case (Cons v vs)
  have r: "iterencode_list level (44 # newline_indent level) (map listify vs)
             = iterencode_list level (44 # newline_indent level) vs"
    by (rule Cons.IH) (use Cons.prems in simp)
  have v: "iterencode level (listify v) = iterencode level v" using Cons.prems by simp
  show ?case using r v
    by (cases "scalar v") (simp_all add: iterencode_list.simps scalar_listify)
qed

lemma iterencode_dict_listify:
  assumes "\<And>v lv. v \<in> snd ` set kvs \<Longrightarrow> iterencode lv (listify v) = iterencode lv v"
  shows "iterencode_dict level first (map (\<lambda>kv. (fst kv, listify (snd kv))) kvs)
           = iterencode_dict level first kvs"
  using assms
proof (induction kvs arbitrary: first)
  case Nil
  then show ?case by simp
next
  case (Cons kv kvs)
  have r: "iterencode_dict level False (map (\<lambda>kv. (fst kv, listify (snd kv))) kvs)
             = iterencode_dict level False kvs"
    by (rule Cons.IH) (use Cons.prems in simp)
  have v: "iterencode level (listify (snd kv)) = iterencode level (snd kv)" using Cons.prems by simp
  show ?case using r v
    by (cases "scalar (snd kv)") (simp_all add: iterencode_dict.simps scalar_listify)
qed

text \<open>A value is written as the value with lists for its tuples is.\<close>

lemma iterencode_listify: "iterencode level (listify v) = iterencode level v"
proof (induction v arbitrary: level)
  case (PList vs)
  have "iterencode_list (Suc level) (91 # newline_indent (Suc level)) (map listify vs)
          = iterencode_list (Suc level) (91 # newline_indent (Suc level)) vs"
    by (rule iterencode_list_listify) (use PList.IH in simp)
  then show ?case by (simp add: iterencode.simps(1))
next
  case (PTuple vs)
  have "iterencode_list (Suc level) (91 # newline_indent (Suc level)) (map listify vs)
          = iterencode_list (Suc level) (91 # newline_indent (Suc level)) vs"
    by (rule iterencode_list_listify) (use PTuple.IH in simp)
  then show ?case by (simp add: iterencode.simps(1))
next
  case (PDict kvs)
  have "iterencode_dict (Suc level) True (map (\<lambda>kv. (fst kv, listify (snd kv))) kvs)
          = iterencode_dict (Suc level) True kvs"
  proof (rule iterencode_dict_listify)
    fix v lv assume "v \<in> snd ` set kvs"
    then obtain kv where kv: "kv \<in> set kvs" "v = snd kv" by blast
    moreover have "v \<in> Basic_BNFs.snds kv" using kv(2) by (cases kv) simp
    ultimately show "iterencode lv (listify v) = iterencode lv v"
      using PDict.IH [of kv v lv] by simp
  qed
  then show ?case by (simp add: iterencode.simps(2))
qed simp_all

text \<open>
  Saving a value whose tuples, made lists, give a good value writes its text, and
  reading the file gives the value with lists.
\<close>

lemma save_then_read:
  assumes "good (listify v)" and "listify v = PDict d"
  shows "save_all_holiday w v = (Inr (), w\<lparr>cache_file := Some (json_dumps (listify v))\<rparr>)
         \<and> read_all_holiday (snd (save_all_holiday w v)) = Inr (listify v)"
proof -
  have s: "save_all_holiday w v = save_all_holiday w (listify v)"
    by (simp add: save_all_holiday_def iterencode_listify)
  have r: "read_all_holiday (w\<lparr>cache_file := Some (json_dumps (listify v))\<rparr>) = Inr (listify v)"
    using json_loads_dumps [OF assms(1)] assms(2) by (simp add: read_all_holiday_def)
  show ?thesis using r by (simp add: s save_all_holiday_good [OF assms(1)])
qed

lemma listify_tuple_store: "listify (tuple_store st) = list_store st"
  by (simp add: tuple_store_def list_store_def interval_def cached_line_def comp_def)

lemma listify_list_store: "listify (list_store st) = list_store st"
  by (simp add: list_store_def cached_line_def comp_def)

lemma good_list_store: "wf_store st \<Longrightarrow> good (list_store st)"
  by (auto simp: wf_store_def list_store_def list_all_iff cached_line_def comp_def)

lemma triples_of_list:
  "triples_of (PList (map (\<lambda>iv. cached_line (fst iv) (fst (snd iv)) (snd (snd iv))) ivs)) = Some ivs"
  by (induction ivs) (simp_all add: triples_of_def cached_line_def)

lemma triples_of_tuples:
  "triples_of (PList (map (\<lambda>iv. interval (fst iv) (fst (snd iv)) (snd (snd iv))) ivs)) = Some ivs"
  by (induction ivs) (simp_all add: triples_of_def interval_def)

lemma those_map: "(\<And>x. f x = Some (g x)) \<Longrightarrow> those (map f xs) = Some (map g xs)"
  by (induction xs) simp_all

lemma those_years:
  assumes "\<And>yr. f yr = Some (snd yr)"
  shows "map_option (zip (map fst st)) (those (map f st)) = Some st"
proof -
  have "those (map f st) = Some (map snd st)" using assms by (rule those_map)
  then show ?thesis by (simp add: zip_map_fst_snd)
qed

lemma store_of_list_store: "store_of (list_store st) = Some st"
  using those_years [of "\<lambda>yr. triples_of (PList (map (\<lambda>iv. cached_line (fst iv) (fst (snd iv)) (snd (snd iv))) (snd yr)))" st]
  by (simp add: store_of_def list_store_def comp_def triples_of_list)

lemma store_of_tuple_store: "store_of (tuple_store st) = Some st"
  using those_years [of "\<lambda>yr. triples_of (PList (map (\<lambda>iv. interval (fst iv) (fst (snd iv)) (snd (snd iv))) (snd yr)))" st]
  by (simp add: store_of_def tuple_store_def comp_def triples_of_tuples)

text \<open>
  C9. For every well-formed holiday store, held with tuples as the parser builds it or
  with lists as the cache file gives it back, \<open>save_all_holiday\<close> succeeds and
  \<open>read_all_holiday\<close> on the file it wrote returns the store with lists: the same
  years in the same order, each with the same triples.
\<close>

theorem C9_save_then_read:
  assumes "wf_store st" and "v = tuple_store st \<or> v = list_store st"
  shows "fst (save_all_holiday w v) = Inr ()
         \<and> read_all_holiday (snd (save_all_holiday w v)) = Inr (list_store st)
         \<and> store_of (list_store st) = Some st \<and> store_of v = Some st"
proof -
  have l: "listify v = list_store st"
    using assms(2) listify_tuple_store listify_list_store by auto
  have g: "good (listify v)" using assms(1) l by (simp add: good_list_store)
  have d: "listify v = PDict (map (\<lambda>yr. (fst yr, PList (map (\<lambda>iv. cached_line (fst iv) (fst (snd iv)) (snd (snd iv))) (snd yr)))) st)"
    using l by (simp add: list_store_def)
  have sr: "save_all_holiday w v = (Inr (), w\<lparr>cache_file := Some (json_dumps (listify v))\<rparr>)
         \<and> read_all_holiday (snd (save_all_holiday w v)) = Inr (listify v)"
    using g d by (rule save_then_read)
  from sr have a: "fst (save_all_holiday w v) = Inr ()" by simp
  have b: "read_all_holiday (snd (save_all_holiday w v)) = Inr (list_store st)"
    using sr [THEN conjunct2] unfolding l .
  have c: "store_of v = Some st"
    using assms(2) store_of_tuple_store store_of_list_store by auto
  from a b c store_of_list_store [of st] show ?thesis by blast
qed

theorem C9_save_then_read_witness:
  "wf_store store_example
   \<and> fst (save_all_holiday (web notice_2020 None) (tuple_store store_example)) = Inr ()
   \<and> read_all_holiday (snd (save_all_holiday (web notice_2020 None) (tuple_store store_example)))
       = Inr (list_store store_example)
   \<and> store_of (list_store store_example) = Some store_example
   \<and> store_of (tuple_store store_example) = Some store_example"
proof -
  have h: "wf_store store_example" by code_simp
  show ?thesis using h C9_save_then_read [OF h disjI1, OF refl] by simp
qed

end
